theory Spec2Isabelle
  imports Complex_Main "HOL-Library.Word"
begin

unbundle bit_operations_syntax

section \<open>The index decoder of bambi (\<^verbatim>\<open>src/decode.c\<close>)\<close>

text \<open>
  Conventions of the embedding.
  \<^item> A C string is the list of its characters before the terminating NUL; the
    terminator is implicit. Reading the character at the position of the terminator
    yields NUL, reading beyond it leaves the allocated string: such a read is undefined
    behaviour in C and is the value \<open>None\<close> (or the error \<open>OutOfBounds\<close>) here.
  \<^item> The \<^verbatim>\<open>int\<close> counters of reads, and the totals computed from them, are 32-bit
    words (\<open>c_int\<close>): addition and multiplication wrap around, as they do on the two's
    complement targets of the program (ISO C leaves signed overflow undefined), and
    \<open>sint\<close> reads the signed value, which comparisons, \<^verbatim>\<open>%d\<close> and the conversion to
    \<^verbatim>\<open>double\<close> use. Lengths, mismatch counts and thresholds, which are bounded by the
    length of a string or only compared, are \<open>int\<close>.
  \<^item> A pointer to an entry of the barcode array is the index of the entry
    (\<open>0\<close> is the entry for unmatched reads).
\<close>

subsection \<open>Data\<close>

text \<open>\<^verbatim>\<open>opts_t\<close>: the options read by the decoder itself.\<close>

record opts_t =
  metrics_name :: "string option"
  barcode_tag_name :: string
  quality_tag_name :: string
  max_low_quality_to_convert :: int
  convert_low_quality :: bool
  max_no_calls :: int
  max_mismatches :: int
  min_mismatch_delta :: int
  change_read_name :: bool

type_synonym c_int = "32 word"

text \<open>\<^verbatim>\<open>bc_details_t\<close>: one line of the barcode file and its metrics.\<close>

record bc_details_t =
  seq :: string
  name :: string
  lib :: string
  sample :: string
  desc :: string
  reads :: c_int
  pf_reads :: c_int
  perfect :: c_int
  pf_perfect :: c_int
  one_mismatch :: c_int
  pf_one_mismatch :: c_int

text \<open>
  \<^verbatim>\<open>bc_array_t\<close>: the field \<^verbatim>\<open>end\<close> is the length of \<open>entries\<close>; the capacity
  \<^verbatim>\<open>max\<close> only drives \<^verbatim>\<open>realloc\<close> and is not modelled.
\<close>

record bc_array_t =
  tag_len :: int
  entries :: "bc_details_t list"

subsection \<open>No-calls and mismatches\<close>

definition isNoCall :: "char \<Rightarrow> bool" where
  "isNoCall b = (b = CHR ''N'' \<or> b = CHR ''n'' \<or> b = CHR ''.'')"

fun noCalls_loop :: "string \<Rightarrow> int \<Rightarrow> int" where
  "noCalls_loop [] n = n"
| "noCalls_loop (c # s) n = noCalls_loop s (if isNoCall c then n + 1 else n)"

definition noCalls :: "string \<Rightarrow> int" where
  "noCalls s = noCalls_loop s 0"

text \<open>The character that the C expression \<^verbatim>\<open>s[i]\<close> reads from the string \<open>s\<close>.\<close>

definition cstr_at :: "string \<Rightarrow> nat \<Rightarrow> char option" where
  "cstr_at s i =
     (if i < length s then Some (s ! i)
      else if i = length s then Some (CHR 0x00)
      else None)"

text \<open>
  The loop of \<^verbatim>\<open>countMismatches\<close>: \<open>t\<close> walks over the tag until its terminator,
  \<open>b\<close> is \<open>barcode + i\<close> and is read only when \<open>*t\<close> is not a no-call.
\<close>

fun countMismatches_loop :: "string \<Rightarrow> string \<Rightarrow> nat \<Rightarrow> int \<Rightarrow> int option" where
  "countMismatches_loop [] barcode i n = Some n"
| "countMismatches_loop (t # ts) barcode i n =
     (if \<not> isNoCall t then
        (case cstr_at barcode i of
           None \<Rightarrow> None
         | Some b \<Rightarrow>
             countMismatches_loop ts barcode (Suc i)
               (if \<not> isNoCall b then (if t \<noteq> b then n + 1 else n) else n))
      else countMismatches_loop ts barcode (Suc i) n)"

definition countMismatches :: "string \<Rightarrow> string \<Rightarrow> int option" where
  "countMismatches tag barcode = countMismatches_loop tag barcode 0 0"

text \<open>The two counts the description of \<^verbatim>\<open>countMismatches\<close> refers to.\<close>

definition differing_called :: "string \<Rightarrow> string \<Rightarrow> nat" where
  "differing_called a b =
     length (filter (\<lambda>(x, y). \<not> isNoCall x \<and> \<not> isNoCall y \<and> x \<noteq> y) (zip a b))"

definition hamming :: "string \<Rightarrow> string \<Rightarrow> nat" where
  "hamming a b = length (filter (\<lambda>(x, y). x \<noteq> y) (zip a b))"

subsection \<open>\<^verbatim>\<open>findBestMatch\<close>\<close>

text \<open>
  The state of the scan is \<open>(best_match, nmBest, nm2Best)\<close>; \<open>best_match\<close> is
  \<open>None\<close> for the NULL pointer. \<open>findBestMatch_body\<close> is the body of the
  \<^verbatim>\<open>for\<close> loop once \<open>nMismatches\<close> is known, for the entry at index \<open>n\<close>.
\<close>

type_synonym scan_state = "nat option \<times> int \<times> int"

definition findBestMatch_body :: "nat \<Rightarrow> int \<Rightarrow> scan_state \<Rightarrow> scan_state" where
  "findBestMatch_body n nMismatches st =
     (case st of (best_match, nmBest, nm2Best) \<Rightarrow>
        if nMismatches < nmBest
        then (Some n, nMismatches, if best_match \<noteq> None then nmBest else nm2Best)
        else (best_match, nmBest, if nMismatches < nm2Best then nMismatches else nm2Best))"

fun findBestMatch_loop ::
  "bc_details_t list \<Rightarrow> nat \<Rightarrow> string \<Rightarrow> scan_state \<Rightarrow> scan_state option" where
  "findBestMatch_loop [] n barcode st = Some st"
| "findBestMatch_loop (bcd # rest) n barcode st =
     (case countMismatches (seq bcd) barcode of
        None \<Rightarrow> None
      | Some nMismatches \<Rightarrow>
          findBestMatch_loop rest (Suc n) barcode (findBestMatch_body n nMismatches st))"

text \<open>
  The result is the index of the returned entry; \<open>None\<close> when the scan or the read of
  \<^verbatim>\<open>entries[0]\<close> leaves its array.
\<close>

definition findBestMatch :: "string \<Rightarrow> bc_array_t \<Rightarrow> opts_t \<Rightarrow> nat option" where
  "findBestMatch barcode barcodeArray opts =
     (let bcLen = tag_len barcodeArray;
          nCalls = noCalls barcode
      in case findBestMatch_loop (drop 1 (entries barcodeArray)) 1 barcode (None, bcLen, bcLen) of
           None \<Rightarrow> None
         | Some (best_match, nmBest, nm2Best) \<Rightarrow>
             (let matched = (best_match \<noteq> None \<and>
                             nCalls \<le> max_no_calls opts \<and>
                             nmBest \<le> max_mismatches opts \<and>
                             nm2Best - nmBest \<ge> min_mismatch_delta opts)
              in if matched then best_match
                 else if entries barcodeArray = [] then None else Some 0))"

text \<open>
  The quantities of the description of the matcher: the mismatch counts of the entries
  after the first one, in table order; the least count; the position of the first entry
  that has it; and the least count among the other entries, which the code caps with the
  tag length.
\<close>

definition mismatch_counts :: "string \<Rightarrow> bc_array_t \<Rightarrow> int list" where
  "mismatch_counts barcode barcodeArray =
     map (\<lambda>e. int (differing_called (seq e) barcode)) (tl (entries barcodeArray))"

definition best_count :: "int list \<Rightarrow> int" where
  "best_count ms = Min (set ms)"

definition first_best :: "int list \<Rightarrow> nat" where
  "first_best ms = length (takeWhile (\<lambda>m. m \<noteq> best_count ms) ms)"

definition second_best :: "int \<Rightarrow> int list \<Rightarrow> int" where
  "second_best bcLen ms = Min (insert bcLen (set (remove1 (best_count ms) ms)))"

definition acceptable :: "string \<Rightarrow> bc_array_t \<Rightarrow> opts_t \<Rightarrow> bool" where
  "acceptable barcode barcodeArray opts =
     (let ms = mismatch_counts barcode barcodeArray
      in int (length (filter isNoCall barcode)) \<le> max_no_calls opts \<and>
         best_count ms \<le> max_mismatches opts \<and>
         second_best (tag_len barcodeArray) ms - best_count ms \<ge> min_mismatch_delta opts)"

text \<open>Example data: two barcodes of length 2.\<close>

definition mk_entry :: "string \<Rightarrow> string \<Rightarrow> bc_details_t" where
  "mk_entry s nm =
     \<lparr>seq = s, name = nm, lib = ''lib'', sample = ''sample'', desc = ''desc'',
      reads = 0, pf_reads = 0, perfect = 0, pf_perfect = 0,
      one_mismatch = 0, pf_one_mismatch = 0\<rparr>"

definition example_table :: bc_array_t where
  "example_table =
     \<lparr>tag_len = 2, entries = [mk_entry ''NN'' ''0'', mk_entry ''AA'' ''1'', mk_entry ''CC'' ''2'']\<rparr>"

definition example_opts :: opts_t where
  "example_opts =
     \<lparr>metrics_name = None, barcode_tag_name = ''BC'', quality_tag_name = ''QT'',
      max_low_quality_to_convert = 15, convert_low_quality = False,
      max_no_calls = 2, max_mismatches = 1, min_mismatch_delta = 1,
      change_read_name = False\<rparr>"

text \<open>
  For the proofs: the scan over the mismatch counts alone, and what it maintains. After
  the counts \<open>pre\<close>, \<open>nmBest\<close> is the least of the tag length and the counts,
  \<open>nm2Best\<close> is the least of the tag length and the counts other than one occurrence of
  \<open>nmBest\<close>, and \<open>best_match\<close> is the first entry whose count is \<open>nmBest\<close> when this
  is below the tag length.
\<close>

fun scan :: "int list \<Rightarrow> nat \<Rightarrow> scan_state \<Rightarrow> scan_state" where
  "scan [] n st = st"
| "scan (m # ms) n st = scan ms (Suc n) (findBestMatch_body n m st)"

definition scan_inv :: "int \<Rightarrow> int list \<Rightarrow> scan_state \<Rightarrow> bool" where
  "scan_inv L pre st =
     (case st of (bm, b1, b2) \<Rightarrow>
        b1 = Min (insert L (set pre)) \<and>
        b2 = Min (insert L (set (remove1 b1 pre))) \<and>
        bm = (if b1 < L then Some (Suc (length (takeWhile (\<lambda>m. m \<noteq> b1) pre))) else None))"

subsection \<open>Failures\<close>

text \<open>
  What the C program does not return from: a NULL pointer handed to \<^verbatim>\<open>strlen\<close>,
  \<^verbatim>\<open>strdup\<close> or dereferenced, and a read beyond a string. \<open>MissingMate\<close> marks the
  one place the model stops short of the code: the second \<^verbatim>\<open>sam_read1\<close> of
  \<^verbatim>\<open>processRecord\<close> at the end of the stream, whose result the code does not test.
\<close>

datatype error = NullDereference | OutOfBounds | MissingMate

subsection \<open>\<^verbatim>\<open>checkBarcodeQuality\<close>\<close>

definition DEFAULT_MAX_LOW_QUALITY_TO_CONVERT :: int where
  "DEFAULT_MAX_LOW_QUALITY_TO_CONVERT = 15"

text \<open>
  The value of a C \<^verbatim>\<open>char\<close> in an \<^verbatim>\<open>int\<close> expression, for the signed
  \<^verbatim>\<open>char\<close> of the usual targets; on ASCII characters it is the character code.
\<close>

definition c_char :: "char \<Rightarrow> int" where
  "c_char c = (if (of_char c :: int) < 128 then of_char c else of_char c - 256)"

text \<open>
  The loop writes position \<open>i\<close> of the copy \<open>newBarcode\<close> for every \<open>i\<close> below the
  length of \<open>quality\<close>; both strings have the same length when it runs.
\<close>

definition checkBarcodeQuality_loop :: "string \<Rightarrow> string \<Rightarrow> int \<Rightarrow> string \<Rightarrow> string" where
  "checkBarcodeQuality_loop barcode quality mlq newBarcode =
     fold (\<lambda>i nb. let qual = c_char (quality ! i) - 33
                   in if qual \<le> mlq then nb[i := CHR ''N''] else nb[i := barcode ! i])
       [0 ..< length quality] newBarcode"

text \<open>The result \<open>Inr None\<close> is the returned NULL pointer.\<close>

definition checkBarcodeQuality ::
  "string option \<Rightarrow> string option \<Rightarrow> int \<Rightarrow> error + string option" where
  "checkBarcodeQuality barcode quality max_low_quality =
     (case quality of
        None \<Rightarrow> (case barcode of None \<Rightarrow> Inl NullDereference | Some b \<Rightarrow> Inr (Some b))
      | Some q \<Rightarrow>
          (case barcode of
             None \<Rightarrow> Inr None
           | Some b \<Rightarrow>
               if length b \<noteq> length q then Inr None
               else
                 (let mlq = (if max_low_quality \<noteq> 0 then max_low_quality
                             else DEFAULT_MAX_LOW_QUALITY_TO_CONVERT)
                  in Inr (Some (checkBarcodeQuality_loop b q mlq b)))))"

subsection \<open>\<^verbatim>\<open>updateMetrics\<close> and \<^verbatim>\<open>findBarcodeName\<close>\<close>

text \<open>\<^verbatim>\<open>updateMetrics\<close> on the entry it points to; \<open>sq\<close> is \<open>None\<close> for NULL.\<close>

definition updateMetrics :: "bc_details_t \<Rightarrow> string option \<Rightarrow> bool \<Rightarrow> bc_details_t option" where
  "updateMetrics bcd sq isPf =
     (case (case sq of None \<Rightarrow> Some 99 | Some s \<Rightarrow> countMismatches (seq bcd) s) of
        None \<Rightarrow> None
      | Some n \<Rightarrow>
          (let bcd1 = bcd\<lparr>reads := reads bcd + 1\<rparr>;
               bcd2 = (if isPf then bcd1\<lparr>pf_reads := pf_reads bcd1 + 1\<rparr> else bcd1);
               bcd3 = (if n = 0
                       then (let c = bcd2\<lparr>perfect := perfect bcd2 + 1\<rparr>
                             in if isPf then c\<lparr>pf_perfect := pf_perfect c + 1\<rparr> else c)
                       else bcd2);
               bcd4 = (if n = 1
                       then (let c = bcd3\<lparr>one_mismatch := one_mismatch bcd3 + 1\<rparr>
                             in if isPf then c\<lparr>pf_one_mismatch := pf_one_mismatch c + 1\<rparr> else c)
                       else bcd3)
           in Some bcd4))"

text \<open>The same call seen from the array: the pointer is \<open>entries[k]\<close>.\<close>

definition updateMetrics_at ::
  "bc_array_t \<Rightarrow> nat \<Rightarrow> string option \<Rightarrow> bool \<Rightarrow> bc_array_t option" where
  "updateMetrics_at barcodeArray k sq isPf =
     (if k < length (entries barcodeArray)
      then (case updateMetrics (entries barcodeArray ! k) sq isPf of
              None \<Rightarrow> None
            | Some bcd \<Rightarrow> Some (barcodeArray\<lparr>entries := (entries barcodeArray)[k := bcd]\<rparr>))
      else None)"

definition findBarcodeName ::
  "string \<Rightarrow> bc_array_t \<Rightarrow> opts_t \<Rightarrow> bool \<Rightarrow> (string \<times> bc_array_t) option" where
  "findBarcodeName barcode barcodeArray opts isPf =
     (case findBestMatch barcode barcodeArray opts of
        None \<Rightarrow> None
      | Some k \<Rightarrow>
          (case updateMetrics_at barcodeArray k (Some barcode) isPf of
             None \<Rightarrow> None
           | Some barcodeArray' \<Rightarrow> Some (name (entries barcodeArray' ! k), barcodeArray')))"

text \<open>
  For the statement about \<^verbatim>\<open>checkBarcodeQuality\<close>: the Phred value of a quality
  character, and the threshold the code compares it with.
\<close>

definition phred :: "char \<Rightarrow> int" where
  "phred c = c_char c - 33"

definition effective_threshold :: "int \<Rightarrow> int" where
  "effective_threshold t = (if t = 0 then 15 else t)"

text \<open>
  The increment that a condition contributes to a counter, \<open>INT_MAX\<close>, and the
  counters that can still be incremented without wrapping around.
\<close>

definition b2i :: "bool \<Rightarrow> c_int" where
  "b2i b = (if b then 1 else 0)"

definition INT_MAX :: int where
  "INT_MAX = 2147483647"

definition below_INT_MAX :: "c_int \<Rightarrow> bool" where
  "below_INT_MAX c = (sint c < INT_MAX)"

subsection \<open>Records and streams\<close>

text \<open>
  \<^verbatim>\<open>bam1_t\<close> as far as the decoder looks into it: the read name, the flag word and
  the string-valued attributes, in their order; \<open>other_data\<close> stands for the rest of the
  record, which the decoder never reads or writes.
\<close>

record bam1_t =
  qname :: string
  flag :: "16 word"
  aux :: "(string \<times> string) list"
  other_data :: string

definition BAM_FPAIRED :: "16 word" where
  "BAM_FPAIRED = 1"

definition BAM_FQCFAIL :: "16 word" where
  "BAM_FQCFAIL = 512"

text \<open>
  Modelled from the spec: the record library is not part of the repository; the spec
  (section 6) asks of it to get and set a named string attribute on a record and to read
  and write record streams. \<open>bam_aux_get\<close> composed with \<^verbatim>\<open>bam_aux2Z\<close> yields the
  value of the attribute, or \<open>None\<close> for NULL; \<open>bam_aux_update_str\<close> replaces the value
  of an attribute that is present and appends the attribute otherwise.
\<close>

definition bam_aux_get :: "bam1_t \<Rightarrow> string \<Rightarrow> string option" where
  "bam_aux_get rec tag = map_of (aux rec) tag"

fun aux_set :: "(string \<times> string) list \<Rightarrow> string \<Rightarrow> string \<Rightarrow> (string \<times> string) list" where
  "aux_set [] tag v = [(tag, v)]"
| "aux_set ((t, w) # rest) tag v =
     (if t = tag then (t, v) # rest else (t, w) # aux_set rest tag v)"

definition bam_aux_update_str :: "bam1_t \<Rightarrow> string \<Rightarrow> string \<Rightarrow> bam1_t" where
  "bam_aux_update_str rec tag v = rec\<lparr>aux := aux_set (aux rec) tag v\<rparr>"

text \<open>
  Modelled from the spec: the input stream is the list of the records still to be read,
  the output stream the list of the records written; \<open>out_room\<close> is the number of
  records the output still accepts, so that a write can fail. \<open>sam_read1\<close> is \<open>None\<close>
  at the end of the stream (a negative result in C), \<open>sam_write1\<close> is \<open>None\<close> when the
  write fails.
\<close>

record stream_state =
  unread :: "bam1_t list"
  written :: "bam1_t list"
  out_room :: nat

definition sam_read1 :: "stream_state \<Rightarrow> (bam1_t \<times> stream_state) option" where
  "sam_read1 io =
     (case unread io of [] \<Rightarrow> None | r # rs \<Rightarrow> Some (r, io\<lparr>unread := rs\<rparr>))"

definition sam_write1 :: "stream_state \<Rightarrow> bam1_t \<Rightarrow> stream_state option" where
  "sam_write1 io r =
     (if out_room io = 0 then None
      else Some (io\<lparr>written := written io @ [r], out_room := out_room io - 1\<rparr>))"

subsection \<open>\<^verbatim>\<open>makeNewTag\<close>, \<^verbatim>\<open>add_suffix\<close> and \<^verbatim>\<open>processRecord\<close>\<close>

definition makeNewTag :: "bam1_t \<Rightarrow> string \<Rightarrow> string option \<Rightarrow> error + string" where
  "makeNewTag rec tag nm =
     (let rg = (case bam_aux_get rec tag of None \<Rightarrow> [] | Some v \<Rightarrow> v)
      in case nm of None \<Rightarrow> Inl NullDereference | Some n \<Rightarrow> Inr (rg @ ''#'' @ n))"

definition add_suffix :: "bam1_t \<Rightarrow> string option \<Rightarrow> error + bam1_t" where
  "add_suffix rec suffix =
     (case suffix of
        None \<Rightarrow> Inl NullDereference
      | Some s \<Rightarrow> Inr (rec\<lparr>qname := qname rec @ ''#'' @ s\<rparr>))"

text \<open>
  The value of \<open>newseq\<close> when \<^verbatim>\<open>findBarcodeName\<close> is called, for the value \<open>sq\<close> of
  the barcode attribute: the quality conversion, whose NULL result is kept, and the cut
  to the tag length. The comparison of \<^verbatim>\<open>strlen(seq)\<close> with the \<^verbatim>\<open>int\<close>
  \<open>tag_len\<close> is unsigned in C, hence never true for a negative \<open>tag_len\<close>.
\<close>

definition observed_barcode ::
  "opts_t \<Rightarrow> bc_array_t \<Rightarrow> bam1_t \<Rightarrow> string \<Rightarrow> error + string option" where
  "observed_barcode opts barcodeArray file_read sq =
     (case (if convert_low_quality opts
            then (case bam_aux_get file_read (quality_tag_name opts) of
                    None \<Rightarrow> Inr (Some sq)
                  | Some qual \<Rightarrow>
                      checkBarcodeQuality (Some sq) (Some qual) (max_low_quality_to_convert opts))
            else Inr (Some sq)) of
        Inl e \<Rightarrow> Inl e
      | Inr newseq \<Rightarrow>
          if 0 \<le> tag_len barcodeArray \<and> int (length sq) > tag_len barcodeArray
          then (case newseq of
                  None \<Rightarrow> Inl NullDereference
                | Some s \<Rightarrow> Inr (Some (take (nat (tag_len barcodeArray)) s)))
          else Inr newseq)"

text \<open>
  The block under \<^verbatim>\<open>if (p)\<close>: it yields the barcode name, the record with its new
  read group and name, and the array with its counters. The name of an entry is a string,
  so the test \<^verbatim>\<open>if (!name)\<close> after \<^verbatim>\<open>findBarcodeName\<close> never holds.
\<close>

definition tag_record ::
  "opts_t \<Rightarrow> bc_array_t \<Rightarrow> bam1_t \<Rightarrow> string \<Rightarrow> error + (string \<times> bam1_t \<times> bc_array_t)" where
  "tag_record opts barcodeArray file_read sq =
     (case observed_barcode opts barcodeArray file_read sq of
        Inl e \<Rightarrow> Inl e
      | Inr None \<Rightarrow> Inl NullDereference
      | Inr (Some newseq) \<Rightarrow>
          (case findBarcodeName newseq barcodeArray opts (flag file_read AND BAM_FQCFAIL = 0) of
             None \<Rightarrow> Inl OutOfBounds
           | Some (nm, barcodeArray') \<Rightarrow>
               (case makeNewTag file_read ''RG'' (Some nm) of
                  Inl e \<Rightarrow> Inl e
                | Inr newtag \<Rightarrow>
                    (let rec1 = bam_aux_update_str file_read ''RG'' newtag
                     in if change_read_name opts
                        then (case add_suffix rec1 (Some nm) of
                                Inl e \<Rightarrow> Inl e
                              | Inr rec2 \<Rightarrow> Inr (nm, rec2, barcodeArray'))
                        else Inr (nm, rec1, barcodeArray')))))"

text \<open>What \<^verbatim>\<open>processRecord\<close> does to the mate once it is read.\<close>

definition tag_mate :: "opts_t \<Rightarrow> bool \<Rightarrow> string option \<Rightarrow> bam1_t \<Rightarrow> error + bam1_t" where
  "tag_mate opts p nm paired_read =
     (case (if p
            then (case makeNewTag paired_read ''RG'' nm of
                    Inl e \<Rightarrow> Inl e
                  | Inr newtag \<Rightarrow> Inr (bam_aux_update_str paired_read ''RG'' newtag))
            else Inr paired_read) of
        Inl e \<Rightarrow> Inl e
      | Inr rec1 \<Rightarrow> if change_read_name opts then add_suffix rec1 nm else Inr rec1)"

text \<open>
  The result of \<^verbatim>\<open>processRecord\<close> is its return value (1 at the end of the stream,
  -1 after a failed write, 0 otherwise) with the array and the streams as it leaves them.
\<close>

definition processRecord ::
  "opts_t \<Rightarrow> bc_array_t \<Rightarrow> stream_state \<Rightarrow> error + (int \<times> bc_array_t \<times> stream_state)" where
  "processRecord opts barcodeArray io =
     (case sam_read1 io of
        None \<Rightarrow> Inr (1, barcodeArray, io)
      | Some (file_read, io1) \<Rightarrow>
          (let p = bam_aux_get file_read (barcode_tag_name opts)
           in case (case p of
                      None \<Rightarrow> Inr (None, file_read, barcodeArray)
                    | Some sq \<Rightarrow>
                        (case tag_record opts barcodeArray file_read sq of
                           Inl e \<Rightarrow> Inl e
                         | Inr (nm, r, b) \<Rightarrow> Inr (Some nm, r, b))) of
                Inl e \<Rightarrow> Inl e
              | Inr (nm, file_read', barcodeArray') \<Rightarrow>
                  (case sam_write1 io1 file_read' of
                     None \<Rightarrow> Inr (- 1, barcodeArray', io1)
                   | Some io2 \<Rightarrow>
                       if flag file_read' AND BAM_FPAIRED \<noteq> 0
                       then (case sam_read1 io2 of
                               None \<Rightarrow> Inl MissingMate
                             | Some (paired_read, io3) \<Rightarrow>
                                 (case tag_mate opts (p \<noteq> None) nm paired_read of
                                    Inl e \<Rightarrow> Inl e
                                  | Inr paired_read' \<Rightarrow>
                                      (case sam_write1 io3 paired_read' of
                                         None \<Rightarrow> Inr (- 1, barcodeArray', io3)
                                       | Some io4 \<Rightarrow> Inr (0, barcodeArray', io4))))
                       else Inr (0, barcodeArray', io2))))"

text \<open>
  The loop of \<^verbatim>\<open>decode\<close> over the records,
  \<^verbatim>\<open>while (0 == processRecord(...));\<close>: it ends with the first result of
  \<^verbatim>\<open>processRecord\<close> that is not 0.
\<close>

function process_records ::
  "opts_t \<Rightarrow> bc_array_t \<Rightarrow> stream_state \<Rightarrow> error + (int \<times> bc_array_t \<times> stream_state)" where
  "process_records opts barcodeArray io =
     (case processRecord opts barcodeArray io of
        Inl e \<Rightarrow> Inl e
      | Inr (r, barcodeArray', io') \<Rightarrow>
          if r = 0 then process_records opts barcodeArray' io' else Inr (r, barcodeArray', io'))"
  by pat_completeness auto
termination
proof (relation "measure (\<lambda>(opts, barcodeArray, io). length (unread io))")
  show "wf (measure (\<lambda>(opts, barcodeArray, io). length (unread io)))"
    by simp
next
  fix opts :: opts_t and barcodeArray barcodeArray' :: bc_array_t and io io' :: stream_state
    and r :: int and x y
  assume p: "processRecord opts barcodeArray io = Inr x" "(r, y) = x" "(barcodeArray', io') = y"
    and r: "r = 0"
  have w: "unread b = unread a" if "sam_write1 a rc = Some b" for a b rc
    using that by (auto simp: sam_write1_def split: if_splits)
  have rd: "length (unread b) < length (unread a)" if "sam_read1 a = Some (rc, b)" for a b rc
    using that by (auto simp: sam_read1_def split: list.splits)
  from p r have "processRecord opts barcodeArray io = Inr (0, barcodeArray', io')"
    by simp
  then have "length (unread io') < length (unread io)"
    by (auto simp: processRecord_def Let_def split: option.splits sum.splits if_splits
        dest!: w rd)
  then show "((opts, barcodeArray', io'), opts, barcodeArray, io)
      \<in> measure (\<lambda>(opts, barcodeArray, io). length (unread io))"
    by simp
qed

declare process_records.simps [simp del]

text \<open>
  For the statements about \<^verbatim>\<open>processRecord\<close>. A loaded table has its first entry
  and sequences of the tag length throughout. The quality attribute of a record is usable
  when it is absent, not asked for, or as long as the barcode. The read group of a record
  is the value of its \<open>RG\<close> attribute, empty when there is none; \<open>retag\<close> is the
  record with the suffix \<open>#nm\<close> on its read group and, when names are changed, on its
  name.
\<close>

definition loaded_table :: "bc_array_t \<Rightarrow> bool" where
  "loaded_table bc =
     (entries bc \<noteq> [] \<and> 0 \<le> tag_len bc \<and>
      list_all (\<lambda>e. int (length (seq e)) = tag_len bc) (entries bc))"

definition quality_usable :: "opts_t \<Rightarrow> bam1_t \<Rightarrow> string \<Rightarrow> bool" where
  "quality_usable opts r sq =
     (case bam_aux_get r (quality_tag_name opts) of
        None \<Rightarrow> True
      | Some qual \<Rightarrow> \<not> convert_low_quality opts \<or> length qual = length sq)"

definition read_group :: "bam1_t \<Rightarrow> string" where
  "read_group r = (case bam_aux_get r ''RG'' of None \<Rightarrow> [] | Some v \<Rightarrow> v)"

definition retag :: "opts_t \<Rightarrow> string \<Rightarrow> bam1_t \<Rightarrow> bam1_t" where
  "retag opts nm r =
     r\<lparr>qname := (if change_read_name opts then qname r @ ''#'' @ nm else qname r),
       aux := aux_set (aux r) ''RG'' (read_group r @ ''#'' @ nm)\<rparr>"

text \<open>Example records and streams.\<close>

definition example_read :: "string \<Rightarrow> 16 word \<Rightarrow> (string \<times> string) list \<Rightarrow> bam1_t" where
  "example_read nm fl attrs = \<lparr>qname = nm, flag = fl, aux = attrs, other_data = []\<rparr>"

definition example_stream :: "bam1_t list \<Rightarrow> stream_state" where
  "example_stream rs = \<lparr>unread = rs, written = [], out_room = 10\<rparr>"

subsection \<open>\<^verbatim>\<open>loadBarcodeFile\<close>\<close>

definition tab :: char where
  "tab = CHR 0x09"

definition newline :: char where
  "newline = CHR 0x0A"

text \<open>
  \<^verbatim>\<open>strtok\<close> on the text that is left of the buffer: it skips the delimiters in front,
  and yields the token up to the next delimiter and the text after that delimiter; the
  token is \<open>None\<close> (NULL) when nothing but delimiters is left.
\<close>

definition strtok :: "string \<Rightarrow> string \<Rightarrow> string option \<times> string" where
  "strtok s delim =
     (let s1 = dropWhile (\<lambda>c. c \<in> set delim) s
      in if s1 = [] then (None, [])
         else (Some (takeWhile (\<lambda>c. c \<notin> set delim) s1),
               drop 1 (dropWhile (\<lambda>c. c \<notin> set delim) s1)))"

text \<open>\<^verbatim>\<open>strdup\<close> of a token: NULL is dereferenced.\<close>

definition strdup :: "string option \<Rightarrow> error + string" where
  "strdup s = (case s of None \<Rightarrow> Inl NullDereference | Some x \<Rightarrow> Inr x)"

text \<open>The five fields of one line of the barcode file; the counters start at 0.\<close>

definition read_fields :: "string \<Rightarrow> error + bc_details_t" where
  "read_fields buf =
     (case strtok buf [tab] of (s1, r1) \<Rightarrow>
      case strdup s1 of Inl e \<Rightarrow> Inl e | Inr f_seq \<Rightarrow>
      case strtok r1 [tab] of (s2, r2) \<Rightarrow>
      case strdup s2 of Inl e \<Rightarrow> Inl e | Inr f_name \<Rightarrow>
      case strtok r2 [tab] of (s3, r3) \<Rightarrow>
      case strdup s3 of Inl e \<Rightarrow> Inl e | Inr f_lib \<Rightarrow>
      case strtok r3 [tab] of (s4, r4) \<Rightarrow>
      case strdup s4 of Inl e \<Rightarrow> Inl e | Inr f_sample \<Rightarrow>
      case strtok r4 [tab] of (s5, r5) \<Rightarrow>
      case strdup s5 of Inl e \<Rightarrow> Inl e | Inr f_desc \<Rightarrow>
        Inr \<lparr>seq = f_seq, name = f_name, lib = f_lib, sample = f_sample, desc = f_desc,
             reads = 0, pf_reads = 0, perfect = 0, pf_perfect = 0,
             one_mismatch = 0, pf_one_mismatch = 0\<rparr>)"

definition bc_push :: "bc_array_t \<Rightarrow> bc_details_t \<Rightarrow> bc_array_t" where
  "bc_push bc bcd = bc\<lparr>entries := entries bc @ [bcd]\<rparr>"

text \<open>
  \<^verbatim>\<open>bc_init\<close>: the array with the entry for unmatched reads. Its sequence is NULL
  until the tag length is known and is not read before; it is the empty string here.
\<close>

definition bc_init :: bc_array_t where
  "bc_init =
     bc_push \<lparr>tag_len = 0, entries = []\<rparr>
       \<lparr>seq = [], name = ''0'', lib = [], sample = [], desc = [],
        reads = 0, pf_reads = 0, perfect = 0, pf_perfect = 0,
        one_mismatch = 0, pf_one_mismatch = 0\<rparr>"

text \<open>
  The file is the list of its lines as \<^verbatim>\<open>getline\<close> yields them, each with its
  line feed, which only the last line may lack. The loop returns the array and the tag
  length, or \<open>None\<close> where the code returns NULL.
\<close>

fun loadBarcodeFile_loop ::
  "string list \<Rightarrow> bc_array_t \<Rightarrow> int \<Rightarrow> error + (bc_array_t \<times> int) option" where
  "loadBarcodeFile_loop [] barcodeArray tag_length = Inr (Some (barcodeArray, tag_length))"
| "loadBarcodeFile_loop (buf0 # fh) barcodeArray tag_length =
     (let buf = (if buf0 \<noteq> [] \<and> last buf0 = newline then butlast buf0 else buf0)
      in case read_fields buf of
           Inl e \<Rightarrow> Inl e
         | Inr bcd \<Rightarrow>
             (let barcodeArray' = bc_push barcodeArray bcd
              in if tag_length = 0
                 then loadBarcodeFile_loop fh barcodeArray' (int (length (seq bcd)))
                 else if tag_length \<noteq> int (length (seq bcd)) then Inr None
                 else loadBarcodeFile_loop fh barcodeArray' tag_length))"

text \<open>The argument is \<open>None\<close> when the file cannot be opened.\<close>

definition loadBarcodeFile :: "string list option \<Rightarrow> error + bc_array_t option" where
  "loadBarcodeFile file =
     (let barcodeArray = bc_init
      in case file of
           None \<Rightarrow> Inr None
         | Some [] \<Rightarrow> Inr None
         | Some (header # fh) \<Rightarrow>
             (case loadBarcodeFile_loop fh barcodeArray 0 of
                Inl e \<Rightarrow> Inl e
              | Inr None \<Rightarrow> Inr None
              | Inr (Some (barcodeArray', tag_length)) \<Rightarrow>
                  (case entries barcodeArray' of
                     [] \<Rightarrow> Inl OutOfBounds
                   | e0 # es \<Rightarrow>
                       Inr (Some (barcodeArray'\<lparr>tag_len := tag_length,
                         entries := e0\<lparr>seq := replicate (nat tag_length) CHR ''N''\<rparr> # es\<rparr>)))))"

text \<open>
  For the statements: a line of the barcode file made of the given fields, the entry
  that the first five fields describe, and the entry for unmatched reads of a loaded
  table.
\<close>

fun join_fields :: "string list \<Rightarrow> string" where
  "join_fields [] = []"
| "join_fields [f] = f"
| "join_fields (f # g # fs) = f @ tab # join_fields (g # fs)"

definition file_line :: "string list \<Rightarrow> string" where
  "file_line fs = join_fields fs @ [newline]"








subsection \<open>\<^verbatim>\<open>writeMetrics\<close>\<close>

text \<open>
  A derived value of the report is a \<^verbatim>\<open>double\<close>. Its division is the exact one
  here, rounding is not modelled; the quotient by zero, which is an infinity or a NaN in
  C, is \<open>None\<close>. \<open>guarded_ratio d n\<close> is the C expression \<^verbatim>\<open>d ? n / (double)d : 0\<close>
  for the \<^verbatim>\<open>int\<close> values \<open>d\<close> and \<open>n\<close>, which enter the division with their signed
  values.
\<close>

definition double_div :: "int \<Rightarrow> int \<Rightarrow> real option" where
  "double_div n d = (if d = 0 then None else Some (real_of_int n / real_of_int d))"

definition guarded_ratio :: "c_int \<Rightarrow> c_int \<Rightarrow> real option" where
  "guarded_ratio d n = (if d \<noteq> 0 then double_div (sint n) (sint d) else Some 0)"

text \<open>One line of the metrics file, as \<^verbatim>\<open>writeMetricsLine\<close> prints it.\<close>

record metrics_line =
  BARCODE :: string
  BARCODE_NAME :: string
  LIBRARY_NAME :: string
  SAMPLE_NAME :: string
  DESCRIPTION :: string
  READS :: c_int
  PF_READS :: c_int
  PERFECT_MATCHES :: c_int
  PF_PERFECT_MATCHES :: c_int
  ONE_MISMATCH_MATCHES :: c_int
  PF_ONE_MISMATCH_MATCHES :: c_int
  PCT_MATCHES :: "real option"
  RATIO_THIS_BARCODE_TO_BEST_BARCODE_PCT :: "real option"
  PF_PCT_MATCHES :: "real option"
  PF_RATIO_THIS_BARCODE_TO_BEST_BARCODE_PCT :: "real option"
  PF_NORMALIZED_MATCHES :: "real option"

definition writeMetricsLine ::
  "bc_details_t \<Rightarrow> c_int \<Rightarrow> c_int \<Rightarrow> c_int \<Rightarrow> c_int \<Rightarrow> c_int \<Rightarrow> c_int \<Rightarrow> metrics_line" where
  "writeMetricsLine bcd total_reads max_reads total_pf_reads max_pf_reads
       total_pf_reads_assigned nReads =
     \<lparr>BARCODE = seq bcd, BARCODE_NAME = name bcd, LIBRARY_NAME = lib bcd,
      SAMPLE_NAME = sample bcd, DESCRIPTION = desc bcd,
      READS = reads bcd, PF_READS = pf_reads bcd,
      PERFECT_MATCHES = perfect bcd, PF_PERFECT_MATCHES = pf_perfect bcd,
      ONE_MISMATCH_MATCHES = one_mismatch bcd, PF_ONE_MISMATCH_MATCHES = pf_one_mismatch bcd,
      PCT_MATCHES = guarded_ratio total_reads (reads bcd),
      RATIO_THIS_BARCODE_TO_BEST_BARCODE_PCT = guarded_ratio max_reads (reads bcd),
      PF_PCT_MATCHES = guarded_ratio total_pf_reads (pf_reads bcd),
      PF_RATIO_THIS_BARCODE_TO_BEST_BARCODE_PCT = guarded_ratio max_pf_reads (pf_reads bcd),
      PF_NORMALIZED_MATCHES = guarded_ratio total_pf_reads_assigned (pf_reads bcd * nReads)\<rparr>"

text \<open>
  The local variables of \<^verbatim>\<open>writeMetrics\<close> that the first loop sets. The comparisons
  of the loop are those of signed values.
\<close>

record totals =
  total_reads :: c_int
  total_pf_reads :: c_int
  total_pf_reads_assigned :: c_int
  max_reads :: c_int
  max_pf_reads :: c_int
  nReads :: c_int

fun writeMetrics_count :: "bc_details_t list \<Rightarrow> totals \<Rightarrow> totals" where
  "writeMetrics_count [] t = t"
| "writeMetrics_count (bcd # rest) t =
     writeMetrics_count rest
       \<lparr>total_reads = total_reads t + reads bcd,
        total_pf_reads = total_pf_reads t + pf_reads bcd,
        total_pf_reads_assigned = total_pf_reads_assigned t + pf_reads bcd,
        max_reads = (if sint (max_reads t) < sint (reads bcd) then reads bcd else max_reads t),
        max_pf_reads =
          (if sint (max_pf_reads t) < sint (pf_reads bcd) then pf_reads bcd else max_pf_reads t),
        nReads = nReads t + 1\<rparr>"

text \<open>The totals after the first loop, for an array with the entries \<open>bcd # rest\<close>.\<close>

definition metrics_totals :: "bc_details_t \<Rightarrow> bc_details_t list \<Rightarrow> totals" where
  "metrics_totals bcd rest =
     writeMetrics_count rest
       \<lparr>total_reads = reads bcd, total_pf_reads = pf_reads bcd, total_pf_reads_assigned = 0,
        max_reads = 0, max_pf_reads = 0, nReads = 0\<rparr>"

text \<open>
  The metrics file: the parameters of its comment line and its data lines. The result of
  \<^verbatim>\<open>writeMetrics\<close> is its return value, the file it wrote (none when the file cannot
  be opened, which \<open>can_open\<close> tells) and the array, whose first entry it changes.
\<close>

record metrics_file =
  BARCODE_TAG_NAME :: string
  MAX_MISMATCHES :: int
  MIN_MISMATCH_DELTA :: int
  MAX_NO_CALLS :: int
  data_lines :: "metrics_line list"

definition writeMetrics ::
  "bc_array_t \<Rightarrow> opts_t \<Rightarrow> bool \<Rightarrow> error + (int \<times> metrics_file option \<times> bc_array_t)" where
  "writeMetrics barcodeArray opts can_open =
     (case entries barcodeArray of
        [] \<Rightarrow> Inl OutOfBounds
      | bcd # rest \<Rightarrow>
          if \<not> can_open then Inr (1, None, barcodeArray)
          else
            (let t = metrics_totals bcd rest;
                 lines = map (\<lambda>b. writeMetricsLine b (total_reads t) (max_reads t)
                                   (total_pf_reads t) (max_pf_reads t)
                                   (total_pf_reads_assigned t) (nReads t)) rest;
                 bcd0 = bcd\<lparr>name := [], perfect := 0, pf_perfect := 0\<rparr>;
                 line0 = writeMetricsLine bcd0 (total_reads t) (max_reads t)
                           (total_pf_reads t) (max_pf_reads t) 0 (nReads t)
             in Inr (0,
                  Some \<lparr>BARCODE_TAG_NAME = barcode_tag_name opts,
                        MAX_MISMATCHES = max_mismatches opts,
                        MIN_MISMATCH_DELTA = min_mismatch_delta opts,
                        MAX_NO_CALLS = max_no_calls opts,
                        data_lines = lines @ [line0]\<rparr>,
                  barcodeArray\<lparr>entries := bcd0 # rest\<rparr>)))"










text \<open>
  The invariant of the entry for unmatched reads: its sequence consists of no-calls and
  its counters of perfect matches equal its counters of reads.
\<close>

definition sentinel_inv :: "bc_array_t \<Rightarrow> bool" where
  "sentinel_inv bc =
     (case entries bc of
        [] \<Rightarrow> False
      | s # es \<Rightarrow> list_all isNoCall (seq s) \<and> perfect s = reads s \<and> pf_perfect s = pf_reads s)"

subsection \<open>\<^verbatim>\<open>addNewRG\<close> and \<^verbatim>\<open>changeHeader\<close>\<close>

text \<open>
  Modelled from the spec: the header library is not part of the source at hand. The spec
  (sections 4.4 and 6) describes a read-group declaration as an ordered set of tag/value
  pairs with a mandatory \<open>ID\<close>, and asks of the library to read and mutate the
  declarations of a header. A header is the list of its read-group lines and the list of
  its program lines; the string \<^verbatim>\<open>str\<close> of a tag is \<open>tag:value\<close>.
  \<^item> \<open>sam_hdr_add_PG\<close> appends a program line for the program name and the given tags;
  \<^item> \<open>sam_hdr_add\<close> (for the type \<open>RG\<close>) appends a read-group line with the given tags;
  \<^item> \<open>sam_hdr_find\<close> (for \<open>RG\<close> and \<open>ID\<close>) yields the line with that \<open>ID\<close>, the
    one added last among several, and NULL (\<open>None\<close>) when there is none;
  \<^item> \<open>sam_hdr_update\<close> sets one tag of the line: it replaces the value of a tag that
    is present and appends the tag otherwise;
  \<^item> \<open>sam_hdr_del_RG\<close>, that is \<^verbatim>\<open>sam_hdr_del(sh, "RG", NULL, NULL)\<close>, removes every
    read-group line.
\<close>

type_synonym rg_line = "(string \<times> string) list"

record SAM_hdr =
  rg :: "rg_line list"
  pg :: "rg_line list"

definition sam_hdr_add_PG :: "SAM_hdr \<Rightarrow> string \<Rightarrow> rg_line \<Rightarrow> SAM_hdr" where
  "sam_hdr_add_PG sh nm tags = sh\<lparr>pg := pg sh @ [(''ID'', nm) # (''PN'', nm) # tags]\<rparr>"

definition sam_hdr_add :: "SAM_hdr \<Rightarrow> rg_line \<Rightarrow> SAM_hdr" where
  "sam_hdr_add sh tags = sh\<lparr>rg := rg sh @ [tags]\<rparr>"

definition sam_hdr_find :: "SAM_hdr \<Rightarrow> string \<Rightarrow> nat option" where
  "sam_hdr_find sh v =
     (case filter (\<lambda>i. map_of (rg sh ! i) ''ID'' = Some v) (rev [0 ..< length (rg sh)]) of
        [] \<Rightarrow> None
      | i # _ \<Rightarrow> Some i)"

definition sam_hdr_update :: "SAM_hdr \<Rightarrow> nat option \<Rightarrow> string \<Rightarrow> string \<Rightarrow> error + SAM_hdr" where
  "sam_hdr_update sh hdr t v =
     (case hdr of
        None \<Rightarrow> Inl NullDereference
      | Some i \<Rightarrow>
          if i < length (rg sh) then Inr (sh\<lparr>rg := (rg sh)[i := aux_set (rg sh ! i) t v]\<rparr>)
          else Inl OutOfBounds)"

definition sam_hdr_del_RG :: "SAM_hdr \<Rightarrow> SAM_hdr" where
  "sam_hdr_del_RG sh = sh\<lparr>rg := []\<rparr>"

text \<open>
  The loop of \<^verbatim>\<open>addNewRG\<close> over the rest of the entry string: \<open>saveptr\<close> is the
  text that \<^verbatim>\<open>strtok_r\<close> has not consumed; \<open>lb\<close>, \<open>sm\<close>, \<open>ds\<close> are the arguments
  \<^verbatim>\<open>lib\<close>, \<^verbatim>\<open>sample\<close>, \<^verbatim>\<open>desc\<close>, \<open>None\<close> for NULL.
\<close>

function addNewRG_loop ::
  "SAM_hdr \<Rightarrow> nat option \<Rightarrow> string \<Rightarrow> string \<Rightarrow> string option \<Rightarrow> string option \<Rightarrow>
   string option \<Rightarrow> error + SAM_hdr" where
  "addNewRG_loop sh hdr saveptr bcname lb sm ds =
     (case strtok saveptr '':'' of
        (None, _) \<Rightarrow> Inr sh
      | (Some t, s1) \<Rightarrow>
          (case strtok s1 [tab] of
             (None, _) \<Rightarrow> Inr sh
           | (Some v0, s2) \<Rightarrow>
               (let v1 = (if t = ''PU'' then v0 @ ''#'' @ bcname else v0);
                    v2 = (if t = ''LB'' then (case lb of None \<Rightarrow> v1 | Some l \<Rightarrow> l) else v1);
                    v3 = (if t = ''DS'' then (case ds of None \<Rightarrow> v2 | Some d \<Rightarrow> d) else v2);
                    v4 = (if t = ''SM'' then (case sm of None \<Rightarrow> v3 | Some s \<Rightarrow> s) else v3)
                in case sam_hdr_update sh hdr t v4 of
                     Inl e \<Rightarrow> Inl e
                   | Inr sh' \<Rightarrow> addNewRG_loop sh' hdr s2 bcname lb sm ds)))"
  by pat_completeness auto
termination
proof (relation "measure (\<lambda>(sh, hdr, saveptr, bcname, lb, sm, ds). length saveptr)")
  show "wf (measure (\<lambda>(sh, hdr, saveptr, bcname, lb, sm, ds). length saveptr))"
    by simp
next
  fix sh b :: SAM_hdr and hdr :: "nat option" and saveptr bcname y ya x2 x2a :: string
    and lb sm ds x xa :: "string option"
  assume a: "(x, y) = strtok saveptr '':''" "x = Some x2"
    and b: "(xa, ya) = strtok y [tab]" "xa = Some x2a"
  have shorter: "length r < length s" if "strtok s d = (Some tok, r)" for s d tok r
  proof -
    from that have ne: "dropWhile (\<lambda>c. c \<in> set d) s \<noteq> []"
      and r: "r = drop 1 (dropWhile (\<lambda>c. c \<notin> set d) (dropWhile (\<lambda>c. c \<in> set d) s))"
      by (auto simp: strtok_def Let_def split: if_splits)
    from ne obtain c l where cl: "dropWhile (\<lambda>c. c \<in> set d) s = c # l"
      by (cases "dropWhile (\<lambda>c. c \<in> set d) s") auto
    have "c \<notin> set d"
      using hd_dropWhile [OF ne] cl by simp
    then have "r = drop 1 (dropWhile (\<lambda>c. c \<notin> set d) l)"
      unfolding r cl by simp
    then have "length r \<le> length l"
      using length_dropWhile_le [of "\<lambda>c. c \<notin> set d" l] by simp
    moreover have "length (c # l) \<le> length s"
      using length_dropWhile_le [of "\<lambda>c. c \<in> set d" s] cl by simp
    ultimately show ?thesis by simp
  qed
  from a have "length y < length saveptr"
    by (intro shorter [of saveptr "'':''" x2]) simp
  moreover from b have "length ya < length y"
    by (intro shorter [of y "[tab]" x2a]) simp
  ultimately show "((b, hdr, ya, bcname, lb, sm, ds), sh, hdr, saveptr, bcname, lb, sm, ds)
      \<in> measure (\<lambda>(sh, hdr, saveptr, bcname, lb, sm, ds). length saveptr)"
    by simp
qed

declare addNewRG_loop.simps [simp del]

definition addNewRG ::
  "SAM_hdr \<Rightarrow> string \<Rightarrow> string \<Rightarrow> string option \<Rightarrow> string option \<Rightarrow> string option \<Rightarrow>
   error + SAM_hdr" where
  "addNewRG sh entry bcname lb sm ds =
     (case strtok entry [tab] of
        (None, _) \<Rightarrow> Inl NullDereference
      | (Some p, saveptr) \<Rightarrow>
          (let newtag = p @ ''#'' @ bcname;
               sh1 = sam_hdr_add sh [(''ID'', newtag)];
               hdr = sam_hdr_find sh1 newtag
           in addNewRG_loop sh1 hdr saveptr bcname lb sm ds))"

text \<open>
  \<open>rg_entry\<close> is the string that \<^verbatim>\<open>changeHeader\<close> stores in \<^verbatim>\<open>rgArray\<close> for one
  read-group line: the name (the value of its \<open>ID\<close>, NULL without one) followed by a
  tab and the string of every tag that does not start with \<open>ID:\<close>.
\<close>

definition rg_entry :: "rg_line \<Rightarrow> error + string" where
  "rg_entry line =
     (case map_of line ''ID'' of
        None \<Rightarrow> Inl NullDereference
      | Some nm \<Rightarrow>
          Inr (nm @ concat (map (\<lambda>(k, v). tab # k @ '':'' @ v)
                 (filter (\<lambda>(k, v). take 3 (k @ '':'' @ v) \<noteq> ''ID:'') line))))"

fun rg_entries :: "rg_line list \<Rightarrow> error + string list" where
  "rg_entries [] = Inr []"
| "rg_entries (line # rest) =
     (case rg_entry line of
        Inl e \<Rightarrow> Inl e
      | Inr entry \<Rightarrow>
          (case rg_entries rest of Inl e \<Rightarrow> Inl e | Inr es \<Rightarrow> Inr (entry # es)))"

text \<open>
  The two loops that add the new lines, and \<^verbatim>\<open>changeHeader\<close>; \<open>version\<close> is the
  result of \<^verbatim>\<open>bambi_version()\<close>.
\<close>

fun add_barcodes :: "SAM_hdr \<Rightarrow> string \<Rightarrow> bc_details_t list \<Rightarrow> error + SAM_hdr" where
  "add_barcodes sh entry [] = Inr sh"
| "add_barcodes sh entry (bcd # rest) =
     (case addNewRG sh entry (name bcd) (Some (lib bcd)) (Some (sample bcd)) (Some (desc bcd)) of
        Inl e \<Rightarrow> Inl e
      | Inr sh' \<Rightarrow> add_barcodes sh' entry rest)"

fun add_read_groups :: "SAM_hdr \<Rightarrow> string list \<Rightarrow> bc_details_t list \<Rightarrow> error + SAM_hdr" where
  "add_read_groups sh [] bcds = Inr sh"
| "add_read_groups sh (entry # rgArray) bcds =
     (case addNewRG sh entry ''0'' None None None of
        Inl e \<Rightarrow> Inl e
      | Inr sh1 \<Rightarrow>
          (case add_barcodes sh1 entry bcds of
             Inl e \<Rightarrow> Inl e
           | Inr sh2 \<Rightarrow> add_read_groups sh2 rgArray bcds))"

definition changeHeader :: "bc_array_t \<Rightarrow> SAM_hdr \<Rightarrow> string \<Rightarrow> string \<Rightarrow> error + SAM_hdr" where
  "changeHeader barcodeArray h argv_list version =
     (let sh = sam_hdr_add_PG h ''bambi'' [(''VN'', version), (''CL'', argv_list)]
      in case rg_entries (rg sh) of
           Inl e \<Rightarrow> Inl e
         | Inr rgArray \<Rightarrow>
             add_read_groups (sam_hdr_del_RG sh) rgArray (drop 1 (entries barcodeArray)))"

text \<open>
  For the statement about the header. A read-group line is well formed when its tags
  are distinct, one of them is \<open>ID\<close>, no tag is empty or contains a colon, and no value
  is empty or contains a tab. \<open>new_rg\<close> is the line that the rewrite rule of the spec
  yields from a line for a barcode name and the optional library, sample and
  description; \<open>expanded\<close> lists these lines for the name \<open>0\<close> and for every entry of
  the table after the first.
\<close>

definition wf_tag :: "string \<times> string \<Rightarrow> bool" where
  "wf_tag kv = (case kv of (k, v) \<Rightarrow> k \<noteq> [] \<and> CHR '':'' \<notin> set k \<and> v \<noteq> [] \<and> tab \<notin> set v)"

definition wf_rg :: "rg_line \<Rightarrow> bool" where
  "wf_rg line = (distinct (map fst line) \<and> list_all wf_tag line \<and> map_of line ''ID'' \<noteq> None)"

definition substituted ::
  "string \<Rightarrow> string option \<Rightarrow> string option \<Rightarrow> string option \<Rightarrow> string \<times> string \<Rightarrow> string \<times> string" where
  "substituted bcname lb sm ds kv =
     (case kv of (k, v) \<Rightarrow>
        (k, if k = ''PU'' then v @ ''#'' @ bcname
            else if k = ''LB'' then (case lb of None \<Rightarrow> v | Some l \<Rightarrow> l)
            else if k = ''DS'' then (case ds of None \<Rightarrow> v | Some d \<Rightarrow> d)
            else if k = ''SM'' then (case sm of None \<Rightarrow> v | Some s \<Rightarrow> s)
            else v))"

definition new_rg ::
  "rg_line \<Rightarrow> string \<Rightarrow> string option \<Rightarrow> string option \<Rightarrow> string option \<Rightarrow> rg_line" where
  "new_rg line bcname lb sm ds =
     (''ID'', (case map_of line ''ID'' of None \<Rightarrow> [] | Some nm \<Rightarrow> nm) @ ''#'' @ bcname) #
     map (substituted bcname lb sm ds) (filter (\<lambda>kv. fst kv \<noteq> ''ID'') line)"

definition expanded :: "bc_array_t \<Rightarrow> rg_line \<Rightarrow> rg_line list" where
  "expanded bc line =
     new_rg line ''0'' None None None #
     map (\<lambda>e. new_rg line (name e) (Some (lib e)) (Some (sample e)) (Some (desc e)))
       (tl (entries bc))"

definition tag_str :: "string \<times> string \<Rightarrow> string" where
  "tag_str kv = (case kv of (k, v) \<Rightarrow> k @ '':'' @ v)"

text \<open>Example header with one read group.\<close>

definition example_header :: SAM_hdr where
  "example_header =
     \<lparr>rg = [[(''ID'', ''1''), (''PL'', ''Illumina''), (''PU'', ''run7''), (''LB'', ''pool''),
             (''SM'', ''mix'')]],
      pg = []\<rparr>"

section \<open>Properties\<close>

subsection \<open>Properties of \<^verbatim>\<open>countMismatches\<close>\<close>

lemma countMismatches_loop_eq:
  "i + length ts \<le> length barcode \<Longrightarrow>
   countMismatches_loop ts barcode i n =
     Some (n + int (differing_called ts (drop i barcode)))"
proof (induction ts arbitrary: i n)
  case Nil
  show ?case by (simp add: differing_called_def)
next
  case (Cons t ts)
  from Cons.prems have i: "i < length barcode" and rest: "Suc i + length ts \<le> length barcode"
    by simp_all
  have d: "drop i barcode = barcode ! i # drop (Suc i) barcode"
    using i by (simp add: Cons_nth_drop_Suc)
  show ?case
    using Cons.IH [OF rest] i
    by (simp add: d cstr_at_def differing_called_def)
qed

lemma countMismatches_defined:
  "length tag \<le> length barcode \<Longrightarrow>
   countMismatches tag barcode = Some (int (differing_called tag barcode))"
  using countMismatches_loop_eq [of 0 tag barcode 0] by (simp add: countMismatches_def)

lemma differing_called_hamming:
  "\<forall>c \<in> set a \<union> set b. \<not> isNoCall c \<Longrightarrow> differing_called a b = hamming a b"
proof -
  assume h: "\<forall>c \<in> set a \<union> set b. \<not> isNoCall c"
  have "\<forall>p \<in> set (zip a b). \<not> isNoCall (fst p) \<and> \<not> isNoCall (snd p)"
    using h by (auto dest: set_zip_leftD set_zip_rightD)
  then have "filter (\<lambda>(x, y). \<not> isNoCall x \<and> \<not> isNoCall y \<and> x \<noteq> y) (zip a b)
      = filter (\<lambda>(x, y). x \<noteq> y) (zip a b)"
    by (intro filter_cong) auto
  then show ?thesis by (simp add: differing_called_def hamming_def)
qed

lemma differing_called_delete:
  assumes len: "length a = length b" and i: "i < length a"
    and nc: "isNoCall (a ! i) \<or> isNoCall (b ! i)"
  shows "differing_called a b =
           differing_called (take i a @ drop (Suc i) a) (take i b @ drop (Suc i) b)"
proof -
  have a: "a = take i a @ a ! i # drop (Suc i) a"
    using i by (simp add: id_take_nth_drop [symmetric])
  have b: "b = take i b @ b ! i # drop (Suc i) b"
    using i len by (simp add: id_take_nth_drop [symmetric])
  have l: "length (take i a) = length (take i b)"
    using len by simp
  have "zip (take i a @ a ! i # drop (Suc i) a) (take i b @ b ! i # drop (Suc i) b)
      = zip (take i a) (take i b) @ (a ! i, b ! i) # zip (drop (Suc i) a) (drop (Suc i) b)"
    by (simp only: zip_append [OF l] zip_Cons_Cons)
  then have "zip a b
      = zip (take i a) (take i b) @ (a ! i, b ! i) # zip (drop (Suc i) a) (drop (Suc i) b)"
    using a b by simp
  moreover have "zip (take i a @ drop (Suc i) a) (take i b @ drop (Suc i) b)
      = zip (take i a) (take i b) @ zip (drop (Suc i) a) (drop (Suc i) b)"
    by (rule zip_append [OF l])
  ultimately show ?thesis
    using nc unfolding differing_called_def by auto
qed

text \<open>
  Claim C2. For strings \<open>a\<close> and \<open>b\<close> of equal length, \<^verbatim>\<open>countMismatches(a, b)\<close>
  returns the number of positions at which both characters are outside the no-call set
  \<open>{N, n, .}\<close> and differ. Hence the result is the Hamming distance when neither string
  holds a no-call, and a position with a no-call on either side adds nothing: the count
  is the one of the two strings with that position deleted.
\<close>

theorem countMismatches_counts:
  assumes "length a = length b"
  shows "countMismatches a b = Some (int (differing_called a b)) \<and>
    ((\<forall>c \<in> set a \<union> set b. \<not> isNoCall c) \<longrightarrow>
       countMismatches a b = Some (int (hamming a b))) \<and>
    (\<forall>i < length a. isNoCall (a ! i) \<or> isNoCall (b ! i) \<longrightarrow>
       countMismatches a b =
         countMismatches (take i a @ drop (Suc i) a) (take i b @ drop (Suc i) b))"
proof (intro conjI allI impI)
  show c: "countMismatches a b = Some (int (differing_called a b))"
    using assms by (simp add: countMismatches_defined)
  show "countMismatches a b = Some (int (hamming a b))"
    if "\<forall>c \<in> set a \<union> set b. \<not> isNoCall c"
    using c differing_called_hamming [OF that] by simp
  show "countMismatches a b =
      countMismatches (take i a @ drop (Suc i) a) (take i b @ drop (Suc i) b)"
    if "i < length a" and "isNoCall (a ! i) \<or> isNoCall (b ! i)" for i
  proof -
    have "length (take i a @ drop (Suc i) a) \<le> length (take i b @ drop (Suc i) b)"
      using assms by simp
    then show ?thesis
      using c differing_called_delete [OF assms that] by (simp add: countMismatches_defined)
  qed
qed

theorem countMismatches_counts_witness:
  "length ''NACG'' = length ''CATG'' \<and> countMismatches ''NACG'' ''CATG'' = Some 1 \<and>
   countMismatches ''ACG'' ''ATG'' = Some 1"
proof -
  have len: "length ''NACG'' = length ''CATG''"
    by simp
  note t = countMismatches_counts [OF len]
  from t have one: "countMismatches ''NACG'' ''CATG'' = Some 1"
    by (simp add: differing_called_def isNoCall_def)
  have "0 < length ''NACG''" and "isNoCall (''NACG'' ! 0) \<or> isNoCall (''CATG'' ! 0)"
    by (simp_all add: isNoCall_def)
  with t have "countMismatches ''NACG'' ''CATG'' =
      countMismatches (take 0 ''NACG'' @ drop (Suc 0) ''NACG'')
        (take 0 ''CATG'' @ drop (Suc 0) ''CATG'')"
    by blast
  with one len show ?thesis
    by simp
qed

subsection \<open>Properties of \<^verbatim>\<open>findBestMatch\<close>\<close>

lemma scan_inv_init: "scan_inv L [] (None, L, L)"
  by (simp add: scan_inv_def)

lemma Min_insert_all_ge:
  "finite A \<Longrightarrow> \<forall>x \<in> A. (L::int) \<le> x \<Longrightarrow> Min (insert L A) = L"
  by (intro Min_eqI) auto

lemma Min_insert_insert:
  "finite A \<Longrightarrow> Min (insert L (insert m A)) = min m (Min (insert (L::int) A))"
proof -
  assume "finite A"
  then have "Min (insert m (insert L A)) = min m (Min (insert L A))"
    by (intro Min_insert) auto
  then show ?thesis by (simp only: insert_commute)
qed

lemma scan_inv_step:
  assumes "scan_inv L pre st"
  shows "scan_inv L (pre @ [m]) (findBestMatch_body (Suc (length pre)) m st)"
proof -
  obtain bm b1 b2 where st: "st = (bm, b1, b2)" by (cases st)
  from assms st have b1: "b1 = Min (insert L (set pre))"
    and b2: "b2 = Min (insert L (set (remove1 b1 pre)))"
    and bm: "bm = (if b1 < L then Some (Suc (length (takeWhile (\<lambda>m. m \<noteq> b1) pre))) else None)"
    by (simp_all add: scan_inv_def)
  have b1L: "b1 \<le> L" using b1 by simp
  have lower: "\<forall>x \<in> set pre. b1 \<le> x" using b1 by simp
  show ?thesis
  proof (cases "m < b1")
    case True
    then have notin: "m \<notin> set pre" using lower by auto
    have m1: "Min (insert L (set (pre @ [m]))) = m"
      using True b1L lower by (intro Min_eqI) auto
    have r: "remove1 m (pre @ [m]) = pre"
      using notin by (simp add: remove1_append)
    have tw: "takeWhile (\<lambda>x. x \<noteq> m) (pre @ [m]) = pre"
      using notin by (subst takeWhile_append2) auto
    have b2b1: "b2 = b1" if "bm = None"
    proof -
      from that bm have "b1 = L" using b1L by (auto split: if_splits)
      then have "\<forall>x \<in> set (remove1 b1 pre). L \<le> x"
        using lower by (auto dest: notin_set_remove1)
      then show ?thesis using b2 \<open>b1 = L\<close> by (simp add: Min_insert_all_ge)
    qed
    show ?thesis
      using True b1L m1 r tw b2b1 b1
      by (auto simp: scan_inv_def st findBestMatch_body_def)
  next
    case False
    then have ge: "b1 \<le> m" by simp
    have b1in: "b1 \<in> insert L (set pre)"
      unfolding b1 by (rule Min_in) auto
    have m1: "Min (insert L (set (pre @ [m]))) = b1"
      using lower b1L ge b1in by (intro Min_eqI) auto
    have m2: "Min (insert L (set (remove1 b1 (pre @ [m])))) = min m b2"
    proof (cases "b1 \<in> set pre")
      case True
      then have "set (remove1 b1 (pre @ [m])) = insert m (set (remove1 b1 pre))"
        by (simp add: remove1_append)
      then show ?thesis using b2 by (simp only: Min_insert_insert [OF finite_set])
    next
      case nin: False
      then have bL: "b1 = L" using b1 Min_in [of "insert L (set pre)"] by auto
      have b2L: "b2 = L" using b2 nin bL lower by (simp add: remove1_idem Min_insert_all_ge)
      have "\<forall>x \<in> set (remove1 b1 (pre @ [m])). L \<le> x"
        using lower ge bL set_remove1_subset [of b1 "pre @ [m]"] by auto
      then have "Min (insert L (set (remove1 b1 (pre @ [m])))) = L"
        by (simp only: Min_insert_all_ge [OF finite_set])
      then show ?thesis using b2L bL ge by (simp add: min_def)
    qed
    have tw: "takeWhile (\<lambda>x. x \<noteq> b1) (pre @ [m]) = takeWhile (\<lambda>x. x \<noteq> b1) pre" if "b1 < L"
    proof -
      from that have "b1 \<in> set pre" using b1 Min_in [of "insert L (set pre)"] by auto
      then show ?thesis by (simp add: takeWhile_append1)
    qed
    show ?thesis
      using False m1 m2 tw bm
      by (auto simp: scan_inv_def st findBestMatch_body_def min_def)
  qed
qed


lemma scan_inv_scan:
  "scan_inv L pre st \<Longrightarrow> scan_inv L (pre @ ms) (scan ms (Suc (length pre)) st)"
proof (induction ms arbitrary: pre st)
  case Nil
  then show ?case by simp
next
  case (Cons m ms)
  from scan_inv_step [OF Cons.prems, of m]
  have "scan_inv L ((pre @ [m]) @ ms)
          (scan ms (Suc (length (pre @ [m]))) (findBestMatch_body (Suc (length pre)) m st))"
    by (rule Cons.IH)
  then show ?case by simp
qed

lemma findBestMatch_loop_scan:
  "\<forall>e \<in> set es. length (seq e) \<le> length barcode \<Longrightarrow>
   findBestMatch_loop es n barcode st =
     Some (scan (map (\<lambda>e. int (differing_called (seq e) barcode)) es) n st)"
  by (induction es arbitrary: n st) (simp_all add: countMismatches_defined)

lemma noCalls_loop_eq: "noCalls_loop s n = n + int (length (filter isNoCall s))"
  by (induction s arbitrary: n) simp_all

lemma noCalls_eq: "noCalls s = int (length (filter isNoCall s))"
  by (simp add: noCalls_def noCalls_loop_eq)

lemma Min_insert_less:
  "finite A \<Longrightarrow> (Min (insert (L::int) A) < L) = (A \<noteq> {} \<and> Min A < L)"
proof (cases "A = {}")
  case True
  then show ?thesis by simp
next
  case False
  assume "finite A"
  then have "Min (insert L A) = min L (Min A)"
    using False by (rule Min_insert)
  then show ?thesis using False by (simp only: min_def) auto
qed

lemma Min_insert_eq_Min:
  "finite A \<Longrightarrow> A \<noteq> {} \<Longrightarrow> Min A < (L::int) \<Longrightarrow> Min (insert L A) = Min A"
proof -
  assume "finite A" and "A \<noteq> {}" and less: "Min A < L"
  then have "Min (insert L A) = min L (Min A)"
    by (intro Min_insert)
  then show ?thesis using less by (simp only: min_def) auto
qed

lemma findBestMatch_value:
  assumes ne: "entries bc \<noteq> []"
    and len: "\<forall>e \<in> set (tl (entries bc)). length (seq e) \<le> length barcode"
  shows "findBestMatch barcode bc opts =
    Some (if mismatch_counts barcode bc \<noteq> [] \<and>
             best_count (mismatch_counts barcode bc) < tag_len bc \<and>
             acceptable barcode bc opts
          then Suc (first_best (mismatch_counts barcode bc)) else 0)"
proof -
  define ms where "ms = mismatch_counts barcode bc"
  define L where "L = tag_len bc"
  obtain bm b1 b2 where st3: "scan ms (Suc 0) (None, L, L) = (bm, b1, b2)"
    by (cases "scan ms (Suc 0) (None, L, L)")
  have "findBestMatch_loop (tl (entries bc)) (Suc 0) barcode (None, L, L) =
      Some (scan ms (Suc 0) (None, L, L))"
    unfolding ms_def mismatch_counts_def by (rule findBestMatch_loop_scan [OF len])
  then have loop:
    "findBestMatch_loop (drop 1 (entries bc)) 1 barcode (None, L, L) = Some (bm, b1, b2)"
    by (simp add: drop_Suc st3)
  have "scan_inv L ([] @ ms) (scan ms (Suc (length ([]::int list))) (None, L, L))"
    by (rule scan_inv_scan [OF scan_inv_init])
  then have inv: "scan_inv L ms (bm, b1, b2)"
    by (simp add: st3)
  then have b1: "b1 = Min (insert L (set ms))"
    and b2: "b2 = Min (insert L (set (remove1 b1 ms)))"
    and bm: "bm = (if b1 < L then Some (Suc (length (takeWhile (\<lambda>m. m \<noteq> b1) ms))) else None)"
    by (simp_all add: scan_inv_def)
  have less: "(b1 < L) = (ms \<noteq> [] \<and> best_count ms < L)"
    unfolding b1 best_count_def by (simp only: Min_insert_less [OF finite_set] set_empty)
  have fbm: "findBestMatch barcode bc opts =
      (if bm \<noteq> None \<and> noCalls barcode \<le> max_no_calls opts \<and> b1 \<le> max_mismatches opts \<and>
          b2 - b1 \<ge> min_mismatch_delta opts
       then bm else Some 0)"
    using loop ne by (simp add: findBestMatch_def L_def Let_def)
  have acc: "acceptable barcode bc opts =
      (noCalls barcode \<le> max_no_calls opts \<and> best_count ms \<le> max_mismatches opts \<and>
       second_best L ms - best_count ms \<ge> min_mismatch_delta opts)"
    by (simp add: acceptable_def Let_def ms_def L_def noCalls_eq)
  have "findBestMatch barcode bc opts =
    Some (if ms \<noteq> [] \<and> best_count ms < L \<and> acceptable barcode bc opts
          then Suc (first_best ms) else 0)"
  proof (cases "b1 < L")
    case True
    with less have "set ms \<noteq> {}" and "Min (set ms) < L"
      by (simp_all add: best_count_def)
    then have b1': "b1 = best_count ms"
      unfolding b1 best_count_def by (rule Min_insert_eq_Min [OF finite_set])
    have b2': "b2 = second_best L ms"
      using b2 b1' by (simp add: second_best_def)
    have bm': "bm = Some (Suc (first_best ms))"
      using bm True b1' by (simp add: first_best_def)
    have "ms \<noteq> [] \<and> best_count ms < L"
      using True less by simp
    then show ?thesis
      unfolding fbm acc bm' b1' b2' by simp
  next
    case False
    then have "bm = None" using bm by simp
    moreover have "\<not> (ms \<noteq> [] \<and> best_count ms < L)"
      using False less by simp
    ultimately show ?thesis
      unfolding fbm by auto
  qed
  then show ?thesis
    by (simp only: ms_def L_def)
qed

text \<open>
  Claim C1, as the code has it. Take a table whose first entry exists and an observed
  string that is at least as long as every other entry's sequence. The counts are the
  mismatch counts of the entries after the first, in table order. \<^verbatim>\<open>findBestMatch\<close>
  returns the first entry with the least count exactly when that count is below the tag
  length, the number of no-calls of the observed string is at most \<^verbatim>\<open>max_no_calls\<close>,
  the least count is at most \<^verbatim>\<open>max_mismatches\<close> and the second best count (the
  least count among the other entries, capped by the tag length) exceeds it by at least
  \<^verbatim>\<open>min_mismatch_delta\<close>. In every other case, also when the table has no further
  entry, it returns entry 0.
\<close>

theorem findBestMatch_result:
  assumes ne: "entries bc \<noteq> []"
    and len: "\<forall>e \<in> set (tl (entries bc)). length (seq e) \<le> length barcode"
  shows "findBestMatch barcode bc opts =
    Some (if mismatch_counts barcode bc \<noteq> [] \<and>
             best_count (mismatch_counts barcode bc) < tag_len bc \<and>
             acceptable barcode bc opts
          then Suc (first_best (mismatch_counts barcode bc)) else 0)"
  using assms by (rule findBestMatch_value)

theorem findBestMatch_result_witness:
  "entries example_table \<noteq> [] \<and>
   findBestMatch ''AG'' example_table example_opts = Some 1"
  using findBestMatch_result [of example_table "''AG''" example_opts]
  by (simp add: example_table_def example_opts_def mk_entry_def mismatch_counts_def
      acceptable_def best_count_def first_best_def second_best_def differing_called_def
      isNoCall_def)

text \<open>
  Without the bound by the tag length the claim fails: with \<^verbatim>\<open>max_mismatches = 2\<close>
  and \<^verbatim>\<open>min_mismatch_delta = 0\<close> the observed string \<open>GG\<close> differs from both
  barcodes \<open>AA\<close> and \<open>CC\<close> in two positions, the three thresholds hold, and entry 0 is
  returned.
\<close>

theorem findBestMatch_counterexample:
  "mismatch_counts ''GG'' example_table = [2, 2] \<and>
   acceptable ''GG'' example_table
     (example_opts\<lparr>max_mismatches := 2, min_mismatch_delta := 0\<rparr>) \<and>
   findBestMatch ''GG'' example_table
     (example_opts\<lparr>max_mismatches := 2, min_mismatch_delta := 0\<rparr>) = Some 0"
  by (simp add: example_table_def example_opts_def mk_entry_def mismatch_counts_def
      acceptable_def best_count_def second_best_def differing_called_def isNoCall_def
      findBestMatch_def findBestMatch_body_def countMismatches_def cstr_at_def noCalls_def)

subsection \<open>Properties of \<^verbatim>\<open>checkBarcodeQuality\<close>\<close>

lemma fold_upt_list_update:
  "n \<le> length nb \<Longrightarrow>
   fold (\<lambda>i xs. xs[i := g i]) [0 ..< n] nb = map g [0 ..< n] @ drop n nb"
proof (induction n)
  case 0
  show ?case by simp
next
  case (Suc n)
  then have n: "n < length nb" by simp
  have "(map g [0 ..< n] @ drop n nb)[n := g n] = map g [0 ..< n] @ (drop n nb)[0 := g n]"
    by (simp add: list_update_append)
  also have "(drop n nb)[0 := g n] = g n # drop (Suc n) nb"
    using n by (simp add: Cons_nth_drop_Suc [symmetric])
  finally show ?case
    using Suc by simp
qed

lemma checkBarcodeQuality_loop_eq:
  assumes "length b = length q"
  shows "checkBarcodeQuality_loop b q mlq b =
    map (\<lambda>i. if phred (q ! i) \<le> mlq then CHR ''N'' else b ! i) [0 ..< length b]"
proof -
  have body: "(\<lambda>i nb. let qual = c_char (q ! i) - 33
                 in if qual \<le> mlq then nb[i := CHR ''N''] else nb[i := b ! i])
      = (\<lambda>i nb. nb[i := (if phred (q ! i) \<le> mlq then CHR ''N'' else b ! i)])"
    by (simp add: fun_eq_iff phred_def Let_def)
  show ?thesis
    unfolding checkBarcodeQuality_loop_def body
    using fold_upt_list_update [of "length q" b] assms by simp
qed

lemma checkBarcodeQuality_value:
  "(length b = length q \<longrightarrow>
      (\<exists>r. checkBarcodeQuality (Some b) (Some q) t = Inr (Some r) \<and> length r = length b \<and>
           (\<forall>i < length b.
              r ! i = (if phred (q ! i) \<le> effective_threshold t then CHR ''N'' else b ! i)))) \<and>
   (length b \<noteq> length q \<longrightarrow> checkBarcodeQuality (Some b) (Some q) t = Inr None)"
  by (simp add: checkBarcodeQuality_def checkBarcodeQuality_loop_eq effective_threshold_def
      DEFAULT_MAX_LOW_QUALITY_TO_CONVERT_def)

text \<open>
  Claim C3, as the code has it. For a barcode and a quality string of the same length,
  \<^verbatim>\<open>checkBarcodeQuality\<close> returns a string of that length whose position \<open>i\<close> is
  \<open>N\<close> when the Phred value of \<open>quality[i]\<close> (its character code minus 33) is at most
  the effective threshold, and the base of the barcode otherwise. The effective threshold
  is the configured one, or 15 when the configured one is 0. When the lengths differ the
  function returns NULL.
\<close>

theorem checkBarcodeQuality_result:
  "(length b = length q \<longrightarrow>
      (\<exists>r. checkBarcodeQuality (Some b) (Some q) t = Inr (Some r) \<and> length r = length b \<and>
           (\<forall>i < length b.
              r ! i = (if phred (q ! i) \<le> effective_threshold t then CHR ''N'' else b ! i)))) \<and>
   (length b \<noteq> length q \<longrightarrow> checkBarcodeQuality (Some b) (Some q) t = Inr None)"
  by (rule checkBarcodeQuality_value)

theorem checkBarcodeQuality_result_witness:
  "checkBarcodeQuality (Some ''ACGT'') (Some ''I0+!'') 15 = Inr (Some ''ANNN'') \<and>
   checkBarcodeQuality (Some ''ACGT'') (Some ''I0+'') 15 = Inr None"
proof -
  note t = checkBarcodeQuality_result [of "''ACGT''" "''I0+!''" 15]
  from t obtain r where r: "checkBarcodeQuality (Some ''ACGT'') (Some ''I0+!'') 15 = Inr (Some r)"
    and len: "length r = 4"
    and pos: "\<forall>i < 4. r ! i = (if phred (''I0+!'' ! i) \<le> effective_threshold 15 then CHR ''N''
                else ''ACGT'' ! i)"
    by auto
  have "r ! 0 = CHR ''A''" "r ! 1 = CHR ''N''" "r ! 2 = CHR ''N''" "r ! 3 = CHR ''N''"
    using pos by (simp_all add: phred_def c_char_def effective_threshold_def)
  then have "r = ''ANNN''"
    using len by (intro nth_equalityI) (auto simp: less_Suc_eq numeral_eq_Suc)
  moreover have "checkBarcodeQuality (Some ''ACGT'') (Some ''I0+'') 15 = Inr None"
    using checkBarcodeQuality_result [of "''ACGT''" "''I0+''" 15] by simp
  ultimately show ?thesis using r by simp
qed

text \<open>
  With the configured threshold 0 the claim fails: the quality character \<open>+\<close> has the
  Phred value 10, which is above 0, and the base is converted all the same.
\<close>

theorem checkBarcodeQuality_counterexample:
  "\<not> phred (CHR ''+'') \<le> 0 \<and>
   checkBarcodeQuality (Some ''A'') (Some ''+'') 0 = Inr (Some ''N'')"
  by (simp add: checkBarcodeQuality_def checkBarcodeQuality_loop_def phred_def c_char_def
      DEFAULT_MAX_LOW_QUALITY_TO_CONVERT_def)

subsection \<open>Properties of the arithmetic of \<^verbatim>\<open>int\<close>\<close>

lemma sint_c_int_range: "- 2147483648 \<le> sint (x :: c_int) \<and> sint x < 2147483648"
  using sint_ge [of x] sint_lt [of x] by simp


lemma sint_succ_c_int: "sint x < 2147483647 \<Longrightarrow> sint (x + 1 :: c_int) = sint x + 1"
  using sint_c_int_range [of x] by (simp add: sint_word_add signed_take_bit_int_eq_self)

lemma b2i_True: "b2i True = 1"
  by (simp add: b2i_def)

lemma sint_add_b2i: "below_INT_MAX c \<Longrightarrow> sint (c + b2i b) = sint c + of_bool b"
  by (simp add: b2i_def below_INT_MAX_def INT_MAX_def sint_succ_c_int)

subsection \<open>Properties of \<^verbatim>\<open>updateMetrics\<close>\<close>

lemma updateMetrics_Some:
  assumes "length (seq e) \<le> length s"
  shows "\<exists>e'. updateMetrics e (Some s) isPf = Some e' \<and>
     seq e' = seq e \<and> name e' = name e \<and> lib e' = lib e \<and> sample e' = sample e \<and>
     desc e' = desc e \<and>
     reads e' = reads e + 1 \<and>
     pf_reads e' = pf_reads e + b2i isPf \<and>
     perfect e' = perfect e + b2i (differing_called (seq e) s = 0) \<and>
     pf_perfect e' = pf_perfect e + b2i (differing_called (seq e) s = 0 \<and> isPf) \<and>
     one_mismatch e' = one_mismatch e + b2i (differing_called (seq e) s = 1) \<and>
     pf_one_mismatch e' = pf_one_mismatch e + b2i (differing_called (seq e) s = 1 \<and> isPf)"
  using assms by (simp add: updateMetrics_def countMismatches_defined b2i_def Let_def)

lemma updateMetrics_at_value:
  assumes k: "k < length (entries bc)"
    and len: "length (seq (entries bc ! k)) \<le> length s"
  shows "\<exists>bc'. updateMetrics_at bc k (Some s) isPf = Some bc' \<and>
     tag_len bc' = tag_len bc \<and>
     length (entries bc') = length (entries bc) \<and>
     (\<forall>j < length (entries bc). j \<noteq> k \<longrightarrow> entries bc' ! j = entries bc ! j) \<and>
     seq (entries bc' ! k) = seq (entries bc ! k) \<and>
     name (entries bc' ! k) = name (entries bc ! k) \<and>
     lib (entries bc' ! k) = lib (entries bc ! k) \<and>
     sample (entries bc' ! k) = sample (entries bc ! k) \<and>
     desc (entries bc' ! k) = desc (entries bc ! k) \<and>
     reads (entries bc' ! k) = reads (entries bc ! k) + 1 \<and>
     pf_reads (entries bc' ! k) = pf_reads (entries bc ! k) + b2i isPf \<and>
     perfect (entries bc' ! k) =
       perfect (entries bc ! k) + b2i (differing_called (seq (entries bc ! k)) s = 0) \<and>
     pf_perfect (entries bc' ! k) =
       pf_perfect (entries bc ! k) + b2i (differing_called (seq (entries bc ! k)) s = 0 \<and> isPf) \<and>
     one_mismatch (entries bc' ! k) =
       one_mismatch (entries bc ! k) + b2i (differing_called (seq (entries bc ! k)) s = 1) \<and>
     pf_one_mismatch (entries bc' ! k) =
       pf_one_mismatch (entries bc ! k) +
         b2i (differing_called (seq (entries bc ! k)) s = 1 \<and> isPf)"
proof -
  from updateMetrics_Some [OF len, of isPf] obtain e' where
    e': "updateMetrics (entries bc ! k) (Some s) isPf = Some e'" and
    rest: "seq e' = seq (entries bc ! k) \<and> name e' = name (entries bc ! k) \<and>
     lib e' = lib (entries bc ! k) \<and> sample e' = sample (entries bc ! k) \<and>
     desc e' = desc (entries bc ! k) \<and>
     reads e' = reads (entries bc ! k) + 1 \<and>
     pf_reads e' = pf_reads (entries bc ! k) + b2i isPf \<and>
     perfect e' = perfect (entries bc ! k) + b2i (differing_called (seq (entries bc ! k)) s = 0) \<and>
     pf_perfect e' =
       pf_perfect (entries bc ! k) + b2i (differing_called (seq (entries bc ! k)) s = 0 \<and> isPf) \<and>
     one_mismatch e' =
       one_mismatch (entries bc ! k) + b2i (differing_called (seq (entries bc ! k)) s = 1) \<and>
     pf_one_mismatch e' =
       pf_one_mismatch (entries bc ! k) +
         b2i (differing_called (seq (entries bc ! k)) s = 1 \<and> isPf)"
    by blast
  have at: "updateMetrics_at bc k (Some s) isPf = Some (bc\<lparr>entries := (entries bc)[k := e']\<rparr>)"
    using k e' by (simp add: updateMetrics_at_def)
  show ?thesis
    unfolding at using k rest by simp
qed

lemma updateMetrics_Some_signed:
  assumes "length (seq e) \<le> length s"
  shows "\<exists>e'. updateMetrics e (Some s) isPf = Some e' \<and>
     seq e' = seq e \<and> name e' = name e \<and> lib e' = lib e \<and> sample e' = sample e \<and>
     desc e' = desc e \<and>
     reads e' = reads e + 1 \<and>
     pf_reads e' = pf_reads e + b2i isPf \<and>
     perfect e' = perfect e + b2i (differing_called (seq e) s = 0) \<and>
     pf_perfect e' = pf_perfect e + b2i (differing_called (seq e) s = 0 \<and> isPf) \<and>
     one_mismatch e' = one_mismatch e + b2i (differing_called (seq e) s = 1) \<and>
     pf_one_mismatch e' = pf_one_mismatch e + b2i (differing_called (seq e) s = 1 \<and> isPf) \<and>
     (below_INT_MAX (reads e) \<longrightarrow> sint (reads e') = sint (reads e) + 1) \<and>
     (below_INT_MAX (pf_reads e) \<longrightarrow> sint (pf_reads e') = sint (pf_reads e) + of_bool isPf) \<and>
     (below_INT_MAX (perfect e) \<longrightarrow>
        sint (perfect e') = sint (perfect e) + of_bool (differing_called (seq e) s = 0)) \<and>
     (below_INT_MAX (pf_perfect e) \<longrightarrow>
        sint (pf_perfect e') =
          sint (pf_perfect e) + of_bool (differing_called (seq e) s = 0 \<and> isPf)) \<and>
     (below_INT_MAX (one_mismatch e) \<longrightarrow>
        sint (one_mismatch e') = sint (one_mismatch e) + of_bool (differing_called (seq e) s = 1)) \<and>
     (below_INT_MAX (pf_one_mismatch e) \<longrightarrow>
        sint (pf_one_mismatch e') =
          sint (pf_one_mismatch e) + of_bool (differing_called (seq e) s = 1 \<and> isPf))"
proof -
  from updateMetrics_Some [OF assms, of isPf] obtain e' where
    v: "updateMetrics e (Some s) isPf = Some e' \<and>
     seq e' = seq e \<and> name e' = name e \<and> lib e' = lib e \<and> sample e' = sample e \<and>
     desc e' = desc e \<and>
     reads e' = reads e + 1 \<and>
     pf_reads e' = pf_reads e + b2i isPf \<and>
     perfect e' = perfect e + b2i (differing_called (seq e) s = 0) \<and>
     pf_perfect e' = pf_perfect e + b2i (differing_called (seq e) s = 0 \<and> isPf) \<and>
     one_mismatch e' = one_mismatch e + b2i (differing_called (seq e) s = 1) \<and>
     pf_one_mismatch e' = pf_one_mismatch e + b2i (differing_called (seq e) s = 1 \<and> isPf)" ..
  then have c: "reads e' = reads e + b2i True"
     "pf_reads e' = pf_reads e + b2i isPf"
     "perfect e' = perfect e + b2i (differing_called (seq e) s = 0)"
     "pf_perfect e' = pf_perfect e + b2i (differing_called (seq e) s = 0 \<and> isPf)"
     "one_mismatch e' = one_mismatch e + b2i (differing_called (seq e) s = 1)"
     "pf_one_mismatch e' = pf_one_mismatch e + b2i (differing_called (seq e) s = 1 \<and> isPf)"
    by (simp_all only: b2i_True)
  have s1: "below_INT_MAX (reads e) \<longrightarrow> sint (reads e') = sint (reads e) + 1"
    unfolding c using sint_add_b2i [of "reads e" True] by simp
  have s: "below_INT_MAX (pf_reads e) \<longrightarrow> sint (pf_reads e') = sint (pf_reads e) + of_bool isPf"
    "below_INT_MAX (perfect e) \<longrightarrow>
        sint (perfect e') = sint (perfect e) + of_bool (differing_called (seq e) s = 0)"
    "below_INT_MAX (pf_perfect e) \<longrightarrow>
        sint (pf_perfect e') =
          sint (pf_perfect e) + of_bool (differing_called (seq e) s = 0 \<and> isPf)"
    "below_INT_MAX (one_mismatch e) \<longrightarrow>
        sint (one_mismatch e') = sint (one_mismatch e) + of_bool (differing_called (seq e) s = 1)"
    "below_INT_MAX (pf_one_mismatch e) \<longrightarrow>
        sint (pf_one_mismatch e') =
          sint (pf_one_mismatch e) + of_bool (differing_called (seq e) s = 1 \<and> isPf)"
    unfolding c by (rule impI, erule sint_add_b2i)+
  show ?thesis
    apply (rule exI [of _ e'])
    apply (intro conjI)
    using v apply (simp_all only:)[12]
    by (rule s1 s)+
qed

lemma updateMetrics_at_signed:
  assumes k: "k < length (entries bc)"
    and len: "length (seq (entries bc ! k)) \<le> length s"
  shows "\<exists>bc'. updateMetrics_at bc k (Some s) isPf = Some bc' \<and>
     tag_len bc' = tag_len bc \<and>
     length (entries bc') = length (entries bc) \<and>
     (\<forall>j < length (entries bc). j \<noteq> k \<longrightarrow> entries bc' ! j = entries bc ! j) \<and>
     seq (entries bc' ! k) = seq (entries bc ! k) \<and>
     name (entries bc' ! k) = name (entries bc ! k) \<and>
     lib (entries bc' ! k) = lib (entries bc ! k) \<and>
     sample (entries bc' ! k) = sample (entries bc ! k) \<and>
     desc (entries bc' ! k) = desc (entries bc ! k) \<and>
     reads (entries bc' ! k) = reads (entries bc ! k) + 1 \<and>
     pf_reads (entries bc' ! k) = pf_reads (entries bc ! k) + b2i isPf \<and>
     perfect (entries bc' ! k) =
       perfect (entries bc ! k) + b2i (differing_called (seq (entries bc ! k)) s = 0) \<and>
     pf_perfect (entries bc' ! k) =
       pf_perfect (entries bc ! k) + b2i (differing_called (seq (entries bc ! k)) s = 0 \<and> isPf) \<and>
     one_mismatch (entries bc' ! k) =
       one_mismatch (entries bc ! k) + b2i (differing_called (seq (entries bc ! k)) s = 1) \<and>
     pf_one_mismatch (entries bc' ! k) =
       pf_one_mismatch (entries bc ! k) +
         b2i (differing_called (seq (entries bc ! k)) s = 1 \<and> isPf) \<and>
     (below_INT_MAX (reads (entries bc ! k)) \<longrightarrow>
        sint (reads (entries bc' ! k)) = sint (reads (entries bc ! k)) + 1) \<and>
     (below_INT_MAX (pf_reads (entries bc ! k)) \<longrightarrow>
        sint (pf_reads (entries bc' ! k)) = sint (pf_reads (entries bc ! k)) + of_bool isPf) \<and>
     (below_INT_MAX (perfect (entries bc ! k)) \<longrightarrow>
        sint (perfect (entries bc' ! k)) =
          sint (perfect (entries bc ! k)) +
            of_bool (differing_called (seq (entries bc ! k)) s = 0)) \<and>
     (below_INT_MAX (pf_perfect (entries bc ! k)) \<longrightarrow>
        sint (pf_perfect (entries bc' ! k)) =
          sint (pf_perfect (entries bc ! k)) +
            of_bool (differing_called (seq (entries bc ! k)) s = 0 \<and> isPf)) \<and>
     (below_INT_MAX (one_mismatch (entries bc ! k)) \<longrightarrow>
        sint (one_mismatch (entries bc' ! k)) =
          sint (one_mismatch (entries bc ! k)) +
            of_bool (differing_called (seq (entries bc ! k)) s = 1)) \<and>
     (below_INT_MAX (pf_one_mismatch (entries bc ! k)) \<longrightarrow>
        sint (pf_one_mismatch (entries bc' ! k)) =
          sint (pf_one_mismatch (entries bc ! k)) +
            of_bool (differing_called (seq (entries bc ! k)) s = 1 \<and> isPf))"
proof -
  from updateMetrics_Some_signed [OF len, of isPf] obtain e' where
    rest: "updateMetrics (entries bc ! k) (Some s) isPf = Some e' \<and>
     seq e' = seq (entries bc ! k) \<and> name e' = name (entries bc ! k) \<and> lib e' = lib (entries bc ! k) \<and> sample e' = sample (entries bc ! k) \<and>
     desc e' = desc (entries bc ! k) \<and>
     reads e' = reads (entries bc ! k) + 1 \<and>
     pf_reads e' = pf_reads (entries bc ! k) + b2i isPf \<and>
     perfect e' = perfect (entries bc ! k) + b2i (differing_called (seq (entries bc ! k)) s = 0) \<and>
     pf_perfect e' = pf_perfect (entries bc ! k) + b2i (differing_called (seq (entries bc ! k)) s = 0 \<and> isPf) \<and>
     one_mismatch e' = one_mismatch (entries bc ! k) + b2i (differing_called (seq (entries bc ! k)) s = 1) \<and>
     pf_one_mismatch e' = pf_one_mismatch (entries bc ! k) + b2i (differing_called (seq (entries bc ! k)) s = 1 \<and> isPf) \<and>
     (below_INT_MAX (reads (entries bc ! k)) \<longrightarrow> sint (reads e') = sint (reads (entries bc ! k)) + 1) \<and>
     (below_INT_MAX (pf_reads (entries bc ! k)) \<longrightarrow> sint (pf_reads e') = sint (pf_reads (entries bc ! k)) + of_bool isPf) \<and>
     (below_INT_MAX (perfect (entries bc ! k)) \<longrightarrow>
        sint (perfect e') = sint (perfect (entries bc ! k)) + of_bool (differing_called (seq (entries bc ! k)) s = 0)) \<and>
     (below_INT_MAX (pf_perfect (entries bc ! k)) \<longrightarrow>
        sint (pf_perfect e') =
          sint (pf_perfect (entries bc ! k)) + of_bool (differing_called (seq (entries bc ! k)) s = 0 \<and> isPf)) \<and>
     (below_INT_MAX (one_mismatch (entries bc ! k)) \<longrightarrow>
        sint (one_mismatch e') = sint (one_mismatch (entries bc ! k)) + of_bool (differing_called (seq (entries bc ! k)) s = 1)) \<and>
     (below_INT_MAX (pf_one_mismatch (entries bc ! k)) \<longrightarrow>
        sint (pf_one_mismatch e') =
          sint (pf_one_mismatch (entries bc ! k)) + of_bool (differing_called (seq (entries bc ! k)) s = 1 \<and> isPf))" ..
  then have e': "updateMetrics (entries bc ! k) (Some s) isPf = Some e'" ..
  have at: "updateMetrics_at bc k (Some s) isPf = Some (bc\<lparr>entries := (entries bc)[k := e']\<rparr>)"
    using k e' by (simp add: updateMetrics_at_def)
  have sel: "tag_len (bc\<lparr>entries := (entries bc)[k := e']\<rparr>) = tag_len bc"
    "length (entries (bc\<lparr>entries := (entries bc)[k := e']\<rparr>)) = length (entries bc)"
    "\<forall>j < length (entries bc). j \<noteq> k \<longrightarrow>
       entries (bc\<lparr>entries := (entries bc)[k := e']\<rparr>) ! j = entries bc ! j"
    "entries (bc\<lparr>entries := (entries bc)[k := e']\<rparr>) ! k = e'"
    using k by simp_all
  show ?thesis
    apply (rule exI [of _ "bc\<lparr>entries := (entries bc)[k := e']\<rparr>"])
    unfolding sel(4)
    apply (intro conjI)
    apply (rule at sel(1) sel(2) sel(3))+
    apply (insert rest)
    by (elim conjE, assumption)+
qed

text \<open>At \<open>INT_MAX\<close> the increment wraps around to \<open>INT_MIN\<close>.\<close>

lemma updateMetrics_wraps:
  "map_option (\<lambda>e. sint (reads e))
     (updateMetrics ((mk_entry ''AA'' ''1'')\<lparr>reads := 2147483647\<rparr>) (Some ''AA'') True) =
   Some (- 2147483648)"
  by (simp add: updateMetrics_def countMismatches_def cstr_at_def isNoCall_def mk_entry_def)

text \<open>
  Claim C4. Let \<^verbatim>\<open>updateMetrics\<close> be called for entry \<open>k\<close> of the table with an
  observed sequence that is at least as long as the entry's sequence, and a pass-filter
  flag. The call adds 1 to \<open>reads\<close> of the entry, and 1 to \<open>pf_reads\<close> iff the read is
  pass-filter; it adds 1 to \<open>perfect\<close> (and to \<open>pf_perfect\<close> iff pass-filter) exactly
  when the mismatch count of the entry's sequence and the observed one is 0, and 1 to
  \<open>one_mismatch\<close> (and to \<open>pf_one_mismatch\<close> iff pass-filter) exactly when the count
  is 1. The additions are those of \<^verbatim>\<open>int\<close>: the value of a counter that is below
  \<open>INT_MAX\<close> before the call grows by exactly the number added. The strings of the
  entry, every other entry and the tag length stay as they were.
\<close>

theorem updateMetrics_counters:
  assumes k: "k < length (entries bc)"
    and len: "length (seq (entries bc ! k)) \<le> length s"
  shows "\<exists>bc'. updateMetrics_at bc k (Some s) isPf = Some bc' \<and>
     tag_len bc' = tag_len bc \<and>
     length (entries bc') = length (entries bc) \<and>
     (\<forall>j < length (entries bc). j \<noteq> k \<longrightarrow> entries bc' ! j = entries bc ! j) \<and>
     seq (entries bc' ! k) = seq (entries bc ! k) \<and>
     name (entries bc' ! k) = name (entries bc ! k) \<and>
     lib (entries bc' ! k) = lib (entries bc ! k) \<and>
     sample (entries bc' ! k) = sample (entries bc ! k) \<and>
     desc (entries bc' ! k) = desc (entries bc ! k) \<and>
     reads (entries bc' ! k) = reads (entries bc ! k) + 1 \<and>
     pf_reads (entries bc' ! k) = pf_reads (entries bc ! k) + b2i isPf \<and>
     perfect (entries bc' ! k) =
       perfect (entries bc ! k) + b2i (differing_called (seq (entries bc ! k)) s = 0) \<and>
     pf_perfect (entries bc' ! k) =
       pf_perfect (entries bc ! k) + b2i (differing_called (seq (entries bc ! k)) s = 0 \<and> isPf) \<and>
     one_mismatch (entries bc' ! k) =
       one_mismatch (entries bc ! k) + b2i (differing_called (seq (entries bc ! k)) s = 1) \<and>
     pf_one_mismatch (entries bc' ! k) =
       pf_one_mismatch (entries bc ! k) +
         b2i (differing_called (seq (entries bc ! k)) s = 1 \<and> isPf) \<and>
     (below_INT_MAX (reads (entries bc ! k)) \<longrightarrow>
        sint (reads (entries bc' ! k)) = sint (reads (entries bc ! k)) + 1) \<and>
     (below_INT_MAX (pf_reads (entries bc ! k)) \<longrightarrow>
        sint (pf_reads (entries bc' ! k)) = sint (pf_reads (entries bc ! k)) + of_bool isPf) \<and>
     (below_INT_MAX (perfect (entries bc ! k)) \<longrightarrow>
        sint (perfect (entries bc' ! k)) =
          sint (perfect (entries bc ! k)) +
            of_bool (differing_called (seq (entries bc ! k)) s = 0)) \<and>
     (below_INT_MAX (pf_perfect (entries bc ! k)) \<longrightarrow>
        sint (pf_perfect (entries bc' ! k)) =
          sint (pf_perfect (entries bc ! k)) +
            of_bool (differing_called (seq (entries bc ! k)) s = 0 \<and> isPf)) \<and>
     (below_INT_MAX (one_mismatch (entries bc ! k)) \<longrightarrow>
        sint (one_mismatch (entries bc' ! k)) =
          sint (one_mismatch (entries bc ! k)) +
            of_bool (differing_called (seq (entries bc ! k)) s = 1)) \<and>
     (below_INT_MAX (pf_one_mismatch (entries bc ! k)) \<longrightarrow>
        sint (pf_one_mismatch (entries bc' ! k)) =
          sint (pf_one_mismatch (entries bc ! k)) +
            of_bool (differing_called (seq (entries bc ! k)) s = 1 \<and> isPf))"
  using assms by (rule updateMetrics_at_signed)

theorem updateMetrics_counters_witness:
  "updateMetrics_at example_table 1 (Some ''AG'') True =
     Some (example_table\<lparr>entries :=
       [mk_entry ''NN'' ''0'',
        (mk_entry ''AA'' ''1'')\<lparr>reads := 1, pf_reads := 1, one_mismatch := 1, pf_one_mismatch := 1\<rparr>,
        mk_entry ''CC'' ''2'']\<rparr>) \<and>
   (\<exists>bc'. updateMetrics_at example_table 1 (Some ''AG'') True = Some bc' \<and>
      sint (reads (entries bc' ! 1)) = 1 \<and> sint (pf_reads (entries bc' ! 1)) = 1 \<and>
      sint (perfect (entries bc' ! 1)) = 0 \<and> sint (pf_perfect (entries bc' ! 1)) = 0 \<and>
      sint (one_mismatch (entries bc' ! 1)) = 1 \<and> sint (pf_one_mismatch (entries bc' ! 1)) = 1)"
proof -
  have k: "1 < length (entries example_table)"
    and len: "length (seq (entries example_table ! 1)) \<le> length ''AG''"
    by (simp_all add: example_table_def mk_entry_def)
  have below: "below_INT_MAX (reads (entries example_table ! 1))"
    "below_INT_MAX (pf_reads (entries example_table ! 1))"
    "below_INT_MAX (perfect (entries example_table ! 1))"
    "below_INT_MAX (pf_perfect (entries example_table ! 1))"
    "below_INT_MAX (one_mismatch (entries example_table ! 1))"
    "below_INT_MAX (pf_one_mismatch (entries example_table ! 1))"
    by (simp_all add: below_INT_MAX_def INT_MAX_def example_table_def mk_entry_def)
  have d: "differing_called (seq (entries example_table ! 1)) ''AG'' = 1"
    by (simp add: differing_called_def isNoCall_def example_table_def mk_entry_def)
  from updateMetrics_counters [OF k len, of True] below obtain bc' where
    u: "updateMetrics_at example_table 1 (Some ''AG'') True = Some bc'"
    and v: "sint (reads (entries bc' ! 1)) = sint (reads (entries example_table ! 1)) + 1"
      "sint (pf_reads (entries bc' ! 1)) =
         sint (pf_reads (entries example_table ! 1)) + of_bool True"
      "sint (perfect (entries bc' ! 1)) =
         sint (perfect (entries example_table ! 1)) +
           of_bool (differing_called (seq (entries example_table ! 1)) ''AG'' = 0)"
      "sint (pf_perfect (entries bc' ! 1)) =
         sint (pf_perfect (entries example_table ! 1)) +
           of_bool (differing_called (seq (entries example_table ! 1)) ''AG'' = 0 \<and> True)"
      "sint (one_mismatch (entries bc' ! 1)) =
         sint (one_mismatch (entries example_table ! 1)) +
           of_bool (differing_called (seq (entries example_table ! 1)) ''AG'' = 1)"
      "sint (pf_one_mismatch (entries bc' ! 1)) =
         sint (pf_one_mismatch (entries example_table ! 1)) +
           of_bool (differing_called (seq (entries example_table ! 1)) ''AG'' = 1 \<and> True)"
    by blast
  from v have w: "sint (reads (entries bc' ! 1)) = 1 \<and> sint (pf_reads (entries bc' ! 1)) = 1 \<and>
      sint (perfect (entries bc' ! 1)) = 0 \<and> sint (pf_perfect (entries bc' ! 1)) = 0 \<and>
      sint (one_mismatch (entries bc' ! 1)) = 1 \<and> sint (pf_one_mismatch (entries bc' ! 1)) = 1"
    unfolding d by (simp add: example_table_def mk_entry_def)
  from u have "updateMetrics_at example_table 1 (Some ''AG'') True =
     Some (example_table\<lparr>entries :=
       [mk_entry ''NN'' ''0'',
        (mk_entry ''AA'' ''1'')\<lparr>reads := 1, pf_reads := 1, one_mismatch := 1, pf_one_mismatch := 1\<rparr>,
        mk_entry ''CC'' ''2'']\<rparr>)"
    by (simp add: updateMetrics_at_def updateMetrics_def countMismatches_def cstr_at_def
        isNoCall_def example_table_def mk_entry_def)
  with u w show ?thesis by blast
qed

subsection \<open>Properties of \<^verbatim>\<open>processRecord\<close>\<close>

lemma loaded_tableD:
  "loaded_table bc \<Longrightarrow> entries bc \<noteq> []"
  "loaded_table bc \<Longrightarrow> 0 \<le> tag_len bc"
  "loaded_table bc \<Longrightarrow> e \<in> set (entries bc) \<Longrightarrow> int (length (seq e)) = tag_len bc"
  by (auto simp: loaded_table_def list_all_iff)

lemma first_best_less: "ms \<noteq> [] \<Longrightarrow> first_best ms < length ms"
proof -
  assume "ms \<noteq> []"
  then have "Min (set ms) \<in> set ms" by (intro Min_in) auto
  then have "takeWhile (\<lambda>m. m \<noteq> best_count ms) ms \<noteq> ms"
    by (auto simp: best_count_def takeWhile_eq_all_conv)
  then have "length (takeWhile (\<lambda>m. m \<noteq> best_count ms) ms) \<noteq> length ms"
    by (metis takeWhile_eq_take take_all_iff order_refl length_takeWhile_le le_antisym)
  then show ?thesis
    using length_takeWhile_le [of "\<lambda>m. m \<noteq> best_count ms" ms]
    by (simp add: first_best_def)
qed

lemma findBestMatch_valid:
  assumes ne: "entries bc \<noteq> []"
    and len: "\<forall>e \<in> set (tl (entries bc)). length (seq e) \<le> length s"
  shows "\<exists>k. findBestMatch s bc opts = Some k \<and> k < length (entries bc)"
proof -
  have l: "length (mismatch_counts s bc) = length (entries bc) - 1"
    by (simp add: mismatch_counts_def)
  show ?thesis
    unfolding findBestMatch_value [OF ne len]
    using ne first_best_less [of "mismatch_counts s bc"] l by auto
qed

lemma findBarcodeName_ok:
  assumes ne: "entries bc \<noteq> []"
    and len: "\<forall>e \<in> set (entries bc). length (seq e) \<le> length s"
  shows "\<exists>k bc'. findBestMatch s bc opts = Some k \<and> k < length (entries bc) \<and>
     updateMetrics_at bc k (Some s) pf = Some bc' \<and>
     findBarcodeName s bc opts pf = Some (name (entries bc ! k), bc')"
proof -
  have "\<forall>e \<in> set (tl (entries bc)). length (seq e) \<le> length s"
    using len ne by (auto dest: list.set_sel(2))
  from findBestMatch_valid [OF ne this, of opts] obtain k where
    k: "findBestMatch s bc opts = Some k" "k < length (entries bc)" by blast
  have "length (seq (entries bc ! k)) \<le> length s"
    using len k(2) by simp
  from updateMetrics_at_value [OF k(2) this, of pf] obtain bc' where
    u: "updateMetrics_at bc k (Some s) pf = Some bc'"
    and n: "name (entries bc' ! k) = name (entries bc ! k)" by blast
  show ?thesis
    using k u n by (simp add: findBarcodeName_def)
qed

lemma observed_barcode_ok:
  assumes ld: "loaded_table bc" and q: "quality_usable opts r sq"
    and len: "tag_len bc \<le> int (length sq)"
  shows "\<exists>newseq. observed_barcode opts bc r sq = Inr (Some newseq) \<and>
     int (length newseq) = tag_len bc"
proof -
  have nn: "0 \<le> tag_len bc" using ld by (rule loaded_tableD)
  obtain c where c: "(if convert_low_quality opts
            then (case bam_aux_get r (quality_tag_name opts) of
                    None \<Rightarrow> Inr (Some sq)
                  | Some qual \<Rightarrow>
                      checkBarcodeQuality (Some sq) (Some qual) (max_low_quality_to_convert opts))
            else Inr (Some sq)) = Inr (Some c)" and lc: "length c = length sq"
  proof (cases "convert_low_quality opts \<and> bam_aux_get r (quality_tag_name opts) \<noteq> None")
    case False
    then show ?thesis using that [of sq] by auto
  next
    case True
    then obtain qual where qual: "bam_aux_get r (quality_tag_name opts) = Some qual" by auto
    with q True have "length sq = length qual" by (simp add: quality_usable_def)
    with checkBarcodeQuality_value [of sq qual "max_low_quality_to_convert opts"]
    obtain res where "checkBarcodeQuality (Some sq) (Some qual) (max_low_quality_to_convert opts)
        = Inr (Some res)" "length res = length sq" by auto
    then show ?thesis using that [of res] True qual by simp
  qed
  show ?thesis
    unfolding observed_barcode_def c using lc len nn by auto
qed


lemma tag_record_ok:
  assumes ld: "loaded_table bc" and q: "quality_usable opts r sq"
    and len: "tag_len bc \<le> int (length sq)"
  shows "\<exists>newseq k bc'.
     observed_barcode opts bc r sq = Inr (Some newseq) \<and>
     findBestMatch newseq bc opts = Some k \<and> k < length (entries bc) \<and>
     updateMetrics_at bc k (Some newseq) (flag r AND BAM_FQCFAIL = 0) = Some bc' \<and>
     tag_record opts bc r sq =
       Inr (name (entries bc ! k), retag opts (name (entries bc ! k)) r, bc')"
proof -
  from observed_barcode_ok [OF ld q len] obtain newseq where
    o: "observed_barcode opts bc r sq = Inr (Some newseq)"
    and l: "int (length newseq) = tag_len bc" by blast
  have "\<forall>e \<in> set (entries bc). length (seq e) \<le> length newseq"
    using loaded_tableD(3) [OF ld] l by fastforce
  from findBarcodeName_ok [OF loaded_tableD(1) [OF ld] this, of opts "flag r AND BAM_FQCFAIL = 0"]
  obtain k bc' where k: "findBestMatch newseq bc opts = Some k" "k < length (entries bc)"
    and u: "updateMetrics_at bc k (Some newseq) (flag r AND BAM_FQCFAIL = 0) = Some bc'"
    and f: "findBarcodeName newseq bc opts (flag r AND BAM_FQCFAIL = 0)
        = Some (name (entries bc ! k), bc')" by blast
  have "tag_record opts bc r sq =
       Inr (name (entries bc ! k), retag opts (name (entries bc ! k)) r, bc')"
    by (simp add: tag_record_def o f makeNewTag_def bam_aux_update_str_def add_suffix_def
        retag_def read_group_def Let_def)
  with o k u show ?thesis by blast
qed

lemma tag_mate_retag:
  "tag_mate opts True (Some nm) r = Inr (retag opts nm r)"
  by (simp add: tag_mate_def makeNewTag_def bam_aux_update_str_def add_suffix_def
      retag_def read_group_def Let_def)

lemma map_of_aux_set: "map_of (aux_set xs t v) t = Some v"
  by (induction xs t v rule: aux_set.induct) simp_all

lemma read_group_retag: "read_group (retag opts nm r) = read_group r @ ''#'' @ nm"
  by (simp add: read_group_def retag_def bam_aux_get_def map_of_aux_set)

lemma flag_retag: "flag (retag opts nm r) = flag r"
  by (simp add: retag_def)

lemma processRecord_pair_value:
  assumes inp: "unread io = r1 # r2 # rest"
    and paired: "flag r1 AND BAM_FPAIRED \<noteq> 0"
    and bc_attr: "bam_aux_get r1 (barcode_tag_name opts) = Some sq"
    and room: "2 \<le> out_room io"
    and ld: "loaded_table bc"
    and len: "tag_len bc \<le> int (length sq)"
    and q: "quality_usable opts r1 sq"
  shows "\<exists>newseq k bc'.
     observed_barcode opts bc r1 sq = Inr (Some newseq) \<and>
     findBestMatch newseq bc opts = Some k \<and> k < length (entries bc) \<and>
     updateMetrics_at bc k (Some newseq) (flag r1 AND BAM_FQCFAIL = 0) = Some bc' \<and>
     processRecord opts bc io =
       Inr (0, bc',
            io\<lparr>unread := rest,
               written := written io @
                 [retag opts (name (entries bc ! k)) r1, retag opts (name (entries bc ! k)) r2],
               out_room := out_room io - 2\<rparr>)"
proof -
  from tag_record_ok [OF ld q len] obtain newseq k bc' where
    o: "observed_barcode opts bc r1 sq = Inr (Some newseq)"
    and k: "findBestMatch newseq bc opts = Some k" "k < length (entries bc)"
    and u: "updateMetrics_at bc k (Some newseq) (flag r1 AND BAM_FQCFAIL = 0) = Some bc'"
    and t: "tag_record opts bc r1 sq =
       Inr (name (entries bc ! k), retag opts (name (entries bc ! k)) r1, bc')" by blast
  have room': "out_room io \<noteq> 0" "out_room io - Suc 0 \<noteq> 0"
    using room by simp_all
  have "processRecord opts bc io =
       Inr (0, bc',
            io\<lparr>unread := rest,
               written := written io @
                 [retag opts (name (entries bc ! k)) r1, retag opts (name (entries bc ! k)) r2],
               out_room := out_room io - 2\<rparr>)"
    using paired room'
    by (simp add: processRecord_def sam_read1_def inp bc_attr t sam_write1_def flag_retag
        tag_mate_retag Let_def)
  with o k u show ?thesis by blast
qed


text \<open>
  Claim C8. Let the next record of the stream carry a barcode attribute and have its
  paired flag set, let its mate follow it in the stream and the output accept two
  records; let the table be loaded, the barcode be at least as long as the tag length and
  the quality attribute be usable. Then \<^verbatim>\<open>processRecord\<close> reads exactly these
  two records and writes both with the same suffix \<open>#name\<close> on their read group and,
  when names are changed, on their name, where \<open>name\<close> is the name of the entry that
  \<^verbatim>\<open>findBestMatch\<close> returns for the barcode of the first record. The array it leaves
  is the one after the single call of \<^verbatim>\<open>updateMetrics\<close> for the first record:
  nothing is matched or counted for the mate, whatever attributes the mate carries.
\<close>

theorem processRecord_mate:
  assumes "unread io = r1 # r2 # rest"
    and "flag r1 AND BAM_FPAIRED \<noteq> 0"
    and "bam_aux_get r1 (barcode_tag_name opts) = Some sq"
    and "2 \<le> out_room io"
    and "loaded_table bc"
    and "tag_len bc \<le> int (length sq)"
    and "quality_usable opts r1 sq"
  shows "\<exists>newseq k bc'.
     observed_barcode opts bc r1 sq = Inr (Some newseq) \<and>
     findBestMatch newseq bc opts = Some k \<and> k < length (entries bc) \<and>
     updateMetrics_at bc k (Some newseq) (flag r1 AND BAM_FQCFAIL = 0) = Some bc' \<and>
     processRecord opts bc io =
       Inr (0, bc',
            io\<lparr>unread := rest,
               written := written io @
                 [retag opts (name (entries bc ! k)) r1, retag opts (name (entries bc ! k)) r2],
               out_room := out_room io - 2\<rparr>) \<and>
     read_group (retag opts (name (entries bc ! k)) r1) =
       read_group r1 @ ''#'' @ name (entries bc ! k) \<and>
     read_group (retag opts (name (entries bc ! k)) r2) =
       read_group r2 @ ''#'' @ name (entries bc ! k)"
  using processRecord_pair_value [OF assms] by (simp only: read_group_retag) blast

theorem processRecord_mate_witness:
  "processRecord (example_opts\<lparr>change_read_name := True\<rparr>) example_table
     (example_stream [example_read ''r1'' 1 [(''BC'', ''AG''), (''RG'', ''7'')],
                      example_read ''r2'' 1 [(''BC'', ''CC''), (''RG'', ''7'')]]) =
   Inr (0,
     example_table\<lparr>entries :=
       [mk_entry ''NN'' ''0'',
        (mk_entry ''AA'' ''1'')\<lparr>reads := 1, pf_reads := 1, one_mismatch := 1, pf_one_mismatch := 1\<rparr>,
        mk_entry ''CC'' ''2'']\<rparr>,
     \<lparr>unread = [],
      written = [example_read ''r1#1'' 1 [(''BC'', ''AG''), (''RG'', ''7#1'')],
                 example_read ''r2#1'' 1 [(''BC'', ''CC''), (''RG'', ''7#1'')]],
      out_room = 8\<rparr>)"
proof -
  let ?opts = "example_opts\<lparr>change_read_name := True\<rparr>"
  let ?r1 = "example_read ''r1'' 1 [(''BC'', ''AG''), (''RG'', ''7'')]"
  let ?r2 = "example_read ''r2'' 1 [(''BC'', ''CC''), (''RG'', ''7'')]"
  let ?io = "example_stream [?r1, ?r2]"
  have 1: "unread ?io = ?r1 # ?r2 # []" by (simp add: example_stream_def)
  have 2: "flag ?r1 AND BAM_FPAIRED \<noteq> 0" by (simp add: example_read_def BAM_FPAIRED_def)
  have 3: "bam_aux_get ?r1 (barcode_tag_name ?opts) = Some ''AG''"
    by (simp add: example_read_def example_opts_def bam_aux_get_def)
  have 4: "2 \<le> out_room ?io" by (simp add: example_stream_def)
  have 5: "loaded_table example_table"
    by (simp add: loaded_table_def example_table_def mk_entry_def)
  have 6: "tag_len example_table \<le> int (length ''AG'')" by (simp add: example_table_def)
  have 7: "quality_usable ?opts ?r1 ''AG''"
    by (simp add: quality_usable_def example_read_def example_opts_def bam_aux_get_def)
  from processRecord_mate [OF 1 2 3 4 5 6 7] obtain newseq k bc' where
    o: "observed_barcode ?opts example_table ?r1 ''AG'' = Inr (Some newseq)"
    and k: "findBestMatch newseq example_table ?opts = Some k"
    and u: "updateMetrics_at example_table k (Some newseq) (flag ?r1 AND BAM_FQCFAIL = 0) = Some bc'"
    and p: "processRecord ?opts example_table ?io =
       Inr (0, bc',
            ?io\<lparr>unread := [],
               written := written ?io @
                 [retag ?opts (name (entries example_table ! k)) ?r1,
                  retag ?opts (name (entries example_table ! k)) ?r2],
               out_room := out_room ?io - 2\<rparr>)"
    by blast
  have n: "newseq = ''AG''"
    using o by (simp add: observed_barcode_def example_opts_def example_table_def)
  have k1: "k = 1"
    using k unfolding n
    by (simp add: example_table_def example_opts_def mk_entry_def example_read_def
        example_stream_def findBestMatch_def findBestMatch_body_def countMismatches_def
        cstr_at_def isNoCall_def noCalls_def)
  have bc': "bc' = example_table\<lparr>entries :=
       [mk_entry ''NN'' ''0'',
        (mk_entry ''AA'' ''1'')\<lparr>reads := 1, pf_reads := 1, one_mismatch := 1, pf_one_mismatch := 1\<rparr>,
        mk_entry ''CC'' ''2'']\<rparr>"
    using u unfolding n k1
    by (simp add: example_table_def example_opts_def mk_entry_def example_read_def
        example_stream_def updateMetrics_at_def updateMetrics_def countMismatches_def
        cstr_at_def isNoCall_def BAM_FQCFAIL_def)
  show ?thesis
    unfolding p bc' k1
    by (simp add: example_table_def example_opts_def mk_entry_def example_read_def
        example_stream_def retag_def read_group_def bam_aux_get_def)
qed

lemma processRecord_no_barcode_pair:
  assumes "unread io = r1 # r2 # rest"
    and "flag r1 AND BAM_FPAIRED \<noteq> 0"
    and "bam_aux_get r1 (barcode_tag_name opts) = None"
    and "2 \<le> out_room io"
  shows "processRecord opts bc io =
     (if change_read_name opts then Inl NullDereference
      else Inr (0, bc, io\<lparr>unread := rest, written := written io @ [r1, r2],
                          out_room := out_room io - 2\<rparr>))"
proof -
  have "out_room io \<noteq> 0" "out_room io - Suc 0 \<noteq> 0"
    using assms(4) by simp_all
  then show ?thesis
    using assms(1-3)
    by (simp add: processRecord_def sam_read1_def sam_write1_def tag_mate_def add_suffix_def)
qed

text \<open>
  A quality attribute whose length differs from the barcode's: \<^verbatim>\<open>checkBarcodeQuality\<close>
  returns NULL, which \<^verbatim>\<open>processRecord\<close> hands on to \<^verbatim>\<open>findBarcodeName\<close> untested.
\<close>

lemma processRecord_quality_length:
  "processRecord (example_opts\<lparr>convert_low_quality := True\<rparr>) example_table
     (example_stream [example_read ''r1'' 0 [(''BC'', ''AG''), (''QT'', ''I'')]]) =
   Inl NullDereference"
  by (simp add: processRecord_def sam_read1_def bam_aux_get_def tag_record_def
      observed_barcode_def checkBarcodeQuality_def example_table_def example_opts_def
      example_read_def example_stream_def)

text \<open>
  Claim C10 asks that for a record without barcode attribute whose paired flag is set the
  mate is read and written through, with the read groups and the counters unchanged. The
  code does so when names are not changed (lemma \<open>processRecord_no_barcode_pair\<close>).
  When names are changed it hands the NULL name to \<^verbatim>\<open>add_suffix\<close> for the mate:
  at the input below \<^verbatim>\<open>processRecord\<close> does not return.
\<close>

theorem processRecord_no_barcode_mate_crash:
  "processRecord (example_opts\<lparr>change_read_name := True\<rparr>) example_table
     (example_stream [example_read ''r1'' 1 [(''RG'', ''7'')],
                      example_read ''r2'' 1 [(''RG'', ''7'')]]) = Inl NullDereference"
  by (simp add: example_table_def example_opts_def mk_entry_def example_read_def
      example_stream_def processRecord_def sam_read1_def sam_write1_def bam_aux_get_def
      tag_mate_def add_suffix_def BAM_FPAIRED_def)

subsection \<open>Properties of \<^verbatim>\<open>loadBarcodeFile\<close>\<close>

lemma takeWhile_until: "x \<notin> set cs \<Longrightarrow> takeWhile (\<lambda>c. c \<noteq> x) (cs @ x # rest) = cs"
  by (induction cs) auto

lemma dropWhile_until:
  "x \<notin> set cs \<Longrightarrow> dropWhile (\<lambda>c. c \<noteq> x) (cs @ x # rest) = x # rest"
  by (induction cs) auto










text \<open>
  A row with fewer than five fields makes \<^verbatim>\<open>strtok\<close> return NULL, which
  \<^verbatim>\<open>strdup\<close> dereferences.
\<close>

lemma loadBarcodeFile_short_row:
  "loadBarcodeFile
     (Some [file_line [''barcode'', ''name'', ''library'', ''sample'', ''description''],
            file_line [''AA'', ''1'', ''lib1'', ''s1'']]) = Inl NullDereference"
  by (simp add: loadBarcodeFile_def bc_init_def bc_push_def read_fields_def strtok_def strdup_def
      file_line_def tab_def newline_def)

subsection \<open>Properties of \<^verbatim>\<open>writeMetrics\<close>\<close>



















text \<open>
  Beyond \<open>INT_MAX\<close> a total and the product \<^verbatim>\<open>pf_reads * nReads\<close> wrap around.
\<close>

lemma metrics_totals_wrap:
  "sint (total_reads (metrics_totals ((mk_entry ''NN'' ''0'')\<lparr>reads := 1200000000\<rparr>)
     [(mk_entry ''AA'' ''1'')\<lparr>reads := 1200000000\<rparr>])) = - 1894967296"
  by (simp add: metrics_totals_def mk_entry_def)

lemma writeMetricsLine_product_wraps:
  "PF_NORMALIZED_MATCHES
     (writeMetricsLine ((mk_entry ''AA'' ''1'')\<lparr>pf_reads := 1500000000\<rparr>) t m tp mp 1500000000 2) =
   Some (- 1294967296 / 1500000000)"
  by (simp add: writeMetricsLine_def guarded_ratio_def double_div_def mk_entry_def)



subsection \<open>The entry for unmatched reads\<close>

lemma countMismatches_loop_nocalls:
  "list_all isNoCall t \<Longrightarrow> countMismatches_loop t b i n = Some n"
  by (induction t arbitrary: i) simp_all

lemma countMismatches_nocalls: "list_all isNoCall t \<Longrightarrow> countMismatches t b = Some 0"
  by (simp add: countMismatches_def countMismatches_loop_nocalls)

lemma updateMetrics_nocalls:
  assumes "list_all isNoCall (seq e)"
  shows "updateMetrics e (Some s) pf =
     Some (e\<lparr>reads := reads e + 1, pf_reads := pf_reads e + b2i pf,
             perfect := perfect e + 1, pf_perfect := pf_perfect e + b2i pf\<rparr>)"
  by (simp add: updateMetrics_def countMismatches_nocalls [OF assms] b2i_def Let_def)

lemma updateMetrics_at_sentinel:
  assumes "sentinel_inv bc"
  shows "\<exists>bc1. updateMetrics_at bc 0 (Some s) pf = Some bc1 \<and>
     reads (hd (entries bc1)) = reads (hd (entries bc)) + 1 \<and>
     perfect (hd (entries bc1)) = perfect (hd (entries bc)) + 1 \<and>
     pf_reads (hd (entries bc1)) = pf_reads (hd (entries bc)) + b2i pf \<and>
     pf_perfect (hd (entries bc1)) = pf_perfect (hd (entries bc)) + b2i pf"
proof -
  from assms obtain s0 es where e: "entries bc = s0 # es" and nc: "list_all isNoCall (seq s0)"
    by (auto simp: sentinel_inv_def split: list.splits)
  show ?thesis
    by (simp add: updateMetrics_at_def e updateMetrics_nocalls [OF nc])
qed

lemma updateMetrics_at_inv:
  assumes inv: "sentinel_inv bc" and u: "updateMetrics_at bc k (Some s) pf = Some bc1"
  shows "sentinel_inv bc1"
proof -
  from inv obtain s0 es where e: "entries bc = s0 # es" and nc: "list_all isNoCall (seq s0)"
    and p: "perfect s0 = reads s0" "pf_perfect s0 = pf_reads s0"
    by (auto simp: sentinel_inv_def split: list.splits)
  show ?thesis
  proof (cases k)
    case 0
    with u have "bc1 = bc\<lparr>entries := (s0\<lparr>reads := reads s0 + 1, pf_reads := pf_reads s0 + b2i pf,
             perfect := perfect s0 + 1, pf_perfect := pf_perfect s0 + b2i pf\<rparr>) # es\<rparr>"
      by (simp add: updateMetrics_at_def e updateMetrics_nocalls [OF nc])
    then show ?thesis
      using nc p by (simp add: sentinel_inv_def)
  next
    case (Suc j)
    with u obtain e' where "bc1 = bc\<lparr>entries := s0 # es[j := e']\<rparr>"
      by (auto simp: updateMetrics_at_def e split: if_splits option.splits)
    then show ?thesis
      using nc p by (simp add: sentinel_inv_def)
  qed
qed

lemma tag_record_inv:
  assumes inv: "sentinel_inv bc" and t: "tag_record opts bc r sq = Inr (nm, r', bc')"
  shows "sentinel_inv bc'"
proof -
  from t obtain newseq pf where "findBarcodeName newseq bc opts pf = Some (nm, bc')"
    by (auto simp: tag_record_def Let_def split: sum.splits option.splits if_splits)
  then obtain k where "updateMetrics_at bc k (Some newseq) pf = Some bc'"
    by (auto simp: findBarcodeName_def split: option.splits)
  with inv show ?thesis by (rule updateMetrics_at_inv)
qed

lemma processRecord_table:
  assumes "processRecord opts bc io = Inr (r, bc2, io')"
  shows "bc2 = bc \<or> (\<exists>rc sq nm r'. tag_record opts bc rc sq = Inr (nm, r', bc2))"
proof (cases "sam_read1 io")
  case None
  with assms show ?thesis by (simp add: processRecord_def)
next
  case (Some a)
  obtain file_read io1 where a: "a = (file_read, io1)" by (cases a)
  show ?thesis
  proof (cases "bam_aux_get file_read (barcode_tag_name opts)")
    case None
    with assms Some a have "bc2 = bc"
      by (auto simp: processRecord_def Let_def split: option.splits sum.splits if_splits)
    then show ?thesis ..
  next
    case sq: (Some sq)
    show ?thesis
    proof (cases "tag_record opts bc file_read sq")
      case (Inl e)
      with assms Some a sq show ?thesis by (simp add: processRecord_def)
    next
      case (Inr b)
      obtain nm r' bc' where b: "b = (nm, r', bc')" by (cases b)
      with assms Some a sq Inr have "bc2 = bc'"
        by (auto simp: processRecord_def Let_def split: option.splits sum.splits if_splits)
      with Inr b show ?thesis by blast
    qed
  qed
qed

lemma processRecord_inv:
  assumes "sentinel_inv bc" and "processRecord opts bc io = Inr (r, bc2, io')"
  shows "sentinel_inv bc2"
  using processRecord_table [OF assms(2)] assms(1) tag_record_inv by blast

lemma loadBarcodeFile_loop_hd:
  "loadBarcodeFile_loop fh bc tlen = Inr (Some (bc', tlen')) \<Longrightarrow> entries bc \<noteq> [] \<Longrightarrow>
   entries bc' \<noteq> [] \<and> hd (entries bc') = hd (entries bc)"
proof (induction fh bc tlen rule: loadBarcodeFile_loop.induct)
  case (1 barcodeArray tag_length)
  then show ?case by simp
next
  case (2 buf0 fh barcodeArray tag_length)
  then show ?case
    by (auto simp: Let_def bc_push_def split: sum.splits if_splits)
qed

lemma loadBarcodeFile_inv:
  assumes "loadBarcodeFile file = Inr (Some bc0)"
  shows "sentinel_inv bc0"
proof -
  from assms obtain header fh bc' tlen where
    l: "loadBarcodeFile_loop fh bc_init 0 = Inr (Some (bc', tlen))"
    and bc0: "entries bc' \<noteq> [] \<longrightarrow> bc0 = bc'\<lparr>tag_len := tlen,
        entries := (hd (entries bc'))\<lparr>seq := replicate (nat tlen) CHR ''N''\<rparr> # tl (entries bc')\<rparr>"
    by (auto simp: loadBarcodeFile_def split: option.splits list.splits sum.splits)
  have "entries bc_init \<noteq> []" by (simp add: bc_init_def bc_push_def)
  from loadBarcodeFile_loop_hd [OF l this]
  have ne: "entries bc' \<noteq> []" and hd: "hd (entries bc') = hd (entries bc_init)" by simp_all
  show ?thesis
    using bc0 ne hd
    by (simp add: sentinel_inv_def bc_init_def bc_push_def list_all_iff isNoCall_def)
qed

lemma writeMetrics_zeroes:
  assumes "writeMetrics bc opts c = Inr (0, f, bc3)"
  shows "perfect (hd (entries bc3)) = 0 \<and> pf_perfect (hd (entries bc3)) = 0 \<and>
     reads (hd (entries bc3)) = reads (hd (entries bc)) \<and>
     pf_reads (hd (entries bc3)) = pf_reads (hd (entries bc))"
  using assms by (auto simp: writeMetrics_def Let_def split: list.splits if_splits)


lemma process_records_inv:
  "sentinel_inv bc \<Longrightarrow> process_records opts bc io = Inr (r, bc', io') \<Longrightarrow> sentinel_inv bc'"
proof (induction opts bc io rule: process_records.induct)
  case (1 opts barcodeArray io)
  from "1.prems"(2) obtain r1 bc1 io1 where
    p: "processRecord opts barcodeArray io = Inr (r1, bc1, io1)"
    by (subst (asm) process_records.simps) (auto split: sum.splits)
  have inv1: "sentinel_inv bc1"
    using "1.prems"(1) p by (rule processRecord_inv)
  show ?case
  proof (cases "r1 = 0")
    case True
    with "1.prems"(2) p have "process_records opts bc1 io1 = Inr (r, bc', io')"
      by (subst (asm) process_records.simps) simp
    with "1.IH" [OF p refl refl True inv1] show ?thesis .
  next
    case False
    with "1.prems"(2) p have "bc' = bc1"
      by (subst (asm) process_records.simps) simp
    with inv1 show ?thesis by simp
  qed
qed

text \<open>The loop over the records never ends with the result 0.\<close>

lemma process_records_returns:
  "process_records opts bc io \<noteq> Inr (0, bc', io')"
proof (induction opts bc io rule: process_records.induct)
  case (1 opts barcodeArray io)
  show ?case
    using "1.IH"
    by (subst process_records.simps) (auto split: sum.splits)
qed

text \<open>
  Claim C9. A table that \<^verbatim>\<open>loadBarcodeFile\<close> returns satisfies the invariant:
  the sequence of its first entry consists of no-calls, \<open>perfect\<close> equals \<open>reads\<close>
  and \<open>pf_perfect\<close> equals \<open>pf_reads\<close> there. On a table with the invariant the
  mismatch count of the first entry's sequence and any observed string is 0, so that
  \<^verbatim>\<open>updateMetrics\<close> for the first entry adds 1 to \<open>perfect\<close> whenever it adds 1 to
  \<open>reads\<close>, and likewise for the pass-filter pair. Every call of \<^verbatim>\<open>updateMetrics\<close>
  for an entry of the table, every call of \<^verbatim>\<open>processRecord\<close> and the loop over all
  records keep the invariant. \<^verbatim>\<open>writeMetrics\<close> then sets \<open>perfect\<close> and \<open>pf_perfect\<close> of the first
  entry to 0 and leaves its \<open>reads\<close> and \<open>pf_reads\<close>.
\<close>

theorem sentinel_perfect_invariant:
  "(loadBarcodeFile file = Inr (Some bc0) \<longrightarrow> sentinel_inv bc0) \<and>
   (sentinel_inv bc \<longrightarrow>
      countMismatches (seq (hd (entries bc))) s = Some 0 \<and>
      (\<exists>bc1. updateMetrics_at bc 0 (Some s) pf = Some bc1 \<and>
         reads (hd (entries bc1)) = reads (hd (entries bc)) + 1 \<and>
         perfect (hd (entries bc1)) = perfect (hd (entries bc)) + 1 \<and>
         pf_reads (hd (entries bc1)) = pf_reads (hd (entries bc)) + b2i pf \<and>
         pf_perfect (hd (entries bc1)) = pf_perfect (hd (entries bc)) + b2i pf) \<and>
      (updateMetrics_at bc k (Some s) pf = Some bc1' \<longrightarrow> sentinel_inv bc1') \<and>
      (processRecord opts bc io = Inr (r, bc2, io') \<longrightarrow> sentinel_inv bc2) \<and>
      (process_records opts bc io = Inr (r', bc4, io'') \<longrightarrow> sentinel_inv bc4)) \<and>
   (writeMetrics bc opts c = Inr (0, f, bc3) \<longrightarrow>
      perfect (hd (entries bc3)) = 0 \<and> pf_perfect (hd (entries bc3)) = 0 \<and>
      reads (hd (entries bc3)) = reads (hd (entries bc)) \<and>
      pf_reads (hd (entries bc3)) = pf_reads (hd (entries bc)))"
proof (intro conjI impI)
  show "sentinel_inv bc0" if "loadBarcodeFile file = Inr (Some bc0)"
    using that by (rule loadBarcodeFile_inv)
  show "countMismatches (seq (hd (entries bc))) s = Some 0" if "sentinel_inv bc"
    using that by (auto simp: sentinel_inv_def countMismatches_nocalls split: list.splits)
  show "\<exists>bc1. updateMetrics_at bc 0 (Some s) pf = Some bc1 \<and>
         reads (hd (entries bc1)) = reads (hd (entries bc)) + 1 \<and>
         perfect (hd (entries bc1)) = perfect (hd (entries bc)) + 1 \<and>
         pf_reads (hd (entries bc1)) = pf_reads (hd (entries bc)) + b2i pf \<and>
         pf_perfect (hd (entries bc1)) = pf_perfect (hd (entries bc)) + b2i pf"
    if "sentinel_inv bc"
    using that by (rule updateMetrics_at_sentinel)
  show "sentinel_inv bc1'" if "sentinel_inv bc" and "updateMetrics_at bc k (Some s) pf = Some bc1'"
    using that by (rule updateMetrics_at_inv)
  show "sentinel_inv bc2" if "sentinel_inv bc" and "processRecord opts bc io = Inr (r, bc2, io')"
    using that by (rule processRecord_inv)
  show "sentinel_inv bc4" if "sentinel_inv bc" and "process_records opts bc io = Inr (r', bc4, io'')"
    using that by (rule process_records_inv)
  show "perfect (hd (entries bc3)) = 0" "pf_perfect (hd (entries bc3)) = 0"
    "reads (hd (entries bc3)) = reads (hd (entries bc))"
    "pf_reads (hd (entries bc3)) = pf_reads (hd (entries bc))"
    if "writeMetrics bc opts c = Inr (0, f, bc3)"
    using writeMetrics_zeroes [OF that] by simp_all
qed

theorem sentinel_perfect_invariant_witness:
  "sentinel_inv example_table \<and>
   processRecord example_opts example_table
     (example_stream [example_read ''r'' 0 [(''BC'', ''GG'')]]) =
     Inr (0,
       example_table\<lparr>entries :=
         [(mk_entry ''NN'' ''0'')\<lparr>reads := 1, pf_reads := 1, perfect := 1, pf_perfect := 1\<rparr>,
          mk_entry ''AA'' ''1'', mk_entry ''CC'' ''2'']\<rparr>,
       \<lparr>unread = [], written = [example_read ''r'' 0 [(''BC'', ''GG''), (''RG'', ''#0'')]],
        out_room = 9\<rparr>) \<and>
   sentinel_inv (example_table\<lparr>entries :=
         [(mk_entry ''NN'' ''0'')\<lparr>reads := 1, pf_reads := 1, perfect := 1, pf_perfect := 1\<rparr>,
          mk_entry ''AA'' ''1'', mk_entry ''CC'' ''2'']\<rparr>)"
proof -
  have inv: "sentinel_inv example_table"
    by (simp add: sentinel_inv_def example_table_def mk_entry_def isNoCall_def)
  have run: "processRecord example_opts example_table
     (example_stream [example_read ''r'' 0 [(''BC'', ''GG'')]]) =
     Inr (0,
       example_table\<lparr>entries :=
         [(mk_entry ''NN'' ''0'')\<lparr>reads := 1, pf_reads := 1, perfect := 1, pf_perfect := 1\<rparr>,
          mk_entry ''AA'' ''1'', mk_entry ''CC'' ''2'']\<rparr>,
       \<lparr>unread = [], written = [example_read ''r'' 0 [(''BC'', ''GG''), (''RG'', ''#0'')]],
        out_room = 9\<rparr>)"
    by (simp add: processRecord_def sam_read1_def sam_write1_def bam_aux_get_def tag_record_def
        observed_barcode_def findBarcodeName_def findBestMatch_def findBestMatch_body_def
        countMismatches_def cstr_at_def isNoCall_def noCalls_def updateMetrics_at_def
        updateMetrics_def makeNewTag_def bam_aux_update_str_def BAM_FQCFAIL_def BAM_FPAIRED_def
        example_table_def example_opts_def mk_entry_def example_read_def example_stream_def)
  from sentinel_perfect_invariant [of _ _ example_table _ _ _ _ example_opts
      "example_stream [example_read ''r'' 0 [(''BC'', ''GG'')]]"] inv run
  have "sentinel_inv (example_table\<lparr>entries :=
         [(mk_entry ''NN'' ''0'')\<lparr>reads := 1, pf_reads := 1, perfect := 1, pf_perfect := 1\<rparr>,
          mk_entry ''AA'' ''1'', mk_entry ''CC'' ''2'']\<rparr>)"
    by blast
  with inv run show ?thesis by blast
qed

subsection \<open>Properties of \<^verbatim>\<open>changeHeader\<close>\<close>

lemma strtok_token:
  assumes "f \<noteq> []" and "d \<notin> set f"
  shows "strtok (f @ d # rest) [d] = (Some f, rest)" and "strtok f [d] = (Some f, [])"
proof -
  from assms obtain c cs where f: "f = c # cs" and c: "c \<noteq> d" and cs: "d \<notin> set cs"
    by (cases f) auto
  have tw: "takeWhile (\<lambda>c. c \<noteq> d) (cs @ d # rest) = cs"
    using cs by (rule takeWhile_until)
  have dw: "dropWhile (\<lambda>c. c \<noteq> d) (cs @ d # rest) = d # rest"
    using cs by (rule dropWhile_until)
  show "strtok (f @ d # rest) [d] = (Some f, rest)"
    using c by (simp add: strtok_def f tw dw)
  have tw': "takeWhile (\<lambda>c. c \<noteq> d) cs = cs"
    using cs by (auto simp: takeWhile_eq_all_conv)
  have dw': "dropWhile (\<lambda>c. c \<noteq> d) cs = []"
    using cs by (auto simp: dropWhile_eq_Nil_conv)
  show "strtok f [d] = (Some f, [])"
    using c by (simp add: strtok_def f tw' dw')
qed

lemma strtok_join_fields:
  assumes "f \<noteq> []" and "tab \<notin> set f"
  shows "strtok (join_fields (f # fs)) [tab] = (Some f, join_fields fs)"
  by (cases fs) (simp_all add: strtok_token [OF assms])

lemma join_fields_concat:
  "join_fields (f # fs) = f @ concat (map (\<lambda>g. tab # g) fs)"
  by (induction fs arbitrary: f) simp_all

lemma aux_set_new: "t \<notin> fst ` set line \<Longrightarrow> aux_set line t v = line @ [(t, v)]"
  by (induction line t v rule: aux_set.induct) auto

lemma addNewRG_loop_tags:
  assumes "i < length (rg sh)" and "list_all wf_tag ts"
    and "distinct (map fst (rg sh ! i) @ map fst ts)"
  shows "addNewRG_loop sh (Some i) (join_fields (map tag_str ts)) bcname lb sm ds =
     Inr (sh\<lparr>rg := (rg sh)[i := rg sh ! i @ map (substituted bcname lb sm ds) ts]\<rparr>)"
  using assms
proof (induction ts arbitrary: sh)
  case Nil
  show ?case
    by (subst addNewRG_loop.simps) (simp add: strtok_def)
next
  case (Cons kv ts)
  obtain k v where kv: "kv = (k, v)" by (cases kv)
  from Cons.prems(2) have "wf_tag kv" and wf: "list_all wf_tag ts"
    by simp_all
  with kv have k: "k \<noteq> []" "CHR '':'' \<notin> set k" and v: "v \<noteq> []" "tab \<notin> set v"
    by (simp_all add: wf_tag_def)
  have key: "strtok (join_fields (map tag_str (kv # ts))) '':'' =
      (Some k, join_fields (v # map tag_str ts))"
  proof (cases ts)
    case Nil
    then show ?thesis
      using strtok_token(1) [OF k, of v] by (simp add: kv tag_str_def)
  next
    case (Cons a list)
    then show ?thesis
      using strtok_token(1) [OF k, of "v @ tab # join_fields (map tag_str (a # list))"]
      by (simp add: kv tag_str_def)
  qed
  have val: "strtok (join_fields (v # map tag_str ts)) [tab] =
      (Some v, join_fields (map tag_str ts))"
    using v by (rule strtok_join_fields)
  define v' where "v' = snd (substituted bcname lb sm ds kv)"
  have sub: "substituted bcname lb sm ds kv = (k, v')"
    by (simp add: v'_def kv substituted_def)
  have knew: "k \<notin> fst ` set (rg sh ! i)"
    using Cons.prems(3) kv by auto
  define sh' where "sh' = sh\<lparr>rg := (rg sh)[i := rg sh ! i @ [(k, v')]]\<rparr>"
  have upd: "sam_hdr_update sh (Some i) k v' = Inr sh'"
    using Cons.prems(1) by (simp add: sam_hdr_update_def aux_set_new [OF knew] sh'_def)
  have i': "i < length (rg sh')" and line: "rg sh' ! i = rg sh ! i @ [(k, v')]"
    using Cons.prems(1) by (simp_all add: sh'_def)
  have dist: "distinct (map fst (rg sh' ! i) @ map fst ts)"
    using Cons.prems(3) kv by (simp add: line)
  have step: "addNewRG_loop sh (Some i) (join_fields (map tag_str (kv # ts))) bcname lb sm ds =
      addNewRG_loop sh' (Some i) (join_fields (map tag_str ts)) bcname lb sm ds"
  proof -
    have v4: "(let v1 = (if k = ''PU'' then v @ ''#'' @ bcname else v);
                  v2 = (if k = ''LB'' then (case lb of None \<Rightarrow> v1 | Some l \<Rightarrow> l) else v1);
                  v3 = (if k = ''DS'' then (case ds of None \<Rightarrow> v2 | Some d \<Rightarrow> d) else v2);
                  v4 = (if k = ''SM'' then (case sm of None \<Rightarrow> v3 | Some s \<Rightarrow> s) else v3)
              in case sam_hdr_update sh (Some i) k v4 of
                   Inl e \<Rightarrow> Inl e
                 | Inr sh' \<Rightarrow> addNewRG_loop sh' (Some i) (join_fields (map tag_str ts)) bcname lb sm ds)
        = addNewRG_loop sh' (Some i) (join_fields (map tag_str ts)) bcname lb sm ds"
      using upd by (auto simp: v'_def kv substituted_def Let_def)
    show ?thesis
      by (subst addNewRG_loop.simps) (simp only: key val prod.case option.case v4)
  qed
  show ?case
    unfolding step Cons.IH [OF i' wf dist]
    using Cons.prems(1) by (simp add: sh'_def sub)
qed

lemma sam_hdr_find_added:
  "sam_hdr_find (sam_hdr_add sh [(''ID'', v)]) v = Some (length (rg sh))"
  by (simp add: sam_hdr_find_def sam_hdr_add_def)

lemma rg_entry_wf:
  assumes "wf_rg line"
  shows "\<exists>nm. map_of line ''ID'' = Some nm \<and> nm \<noteq> [] \<and> tab \<notin> set nm \<and>
     rg_entry line =
       Inr (join_fields (nm # map tag_str (filter (\<lambda>kv. fst kv \<noteq> ''ID'') line)))"
proof -
  from assms obtain nm where nm: "map_of line ''ID'' = Some nm"
    by (auto simp: wf_rg_def)
  then have "(''ID'', nm) \<in> set line" by (rule map_of_SomeD)
  with assms have ok: "nm \<noteq> []" "tab \<notin> set nm"
    by (auto simp: wf_rg_def wf_tag_def list_all_iff)
  have "take 3 (k @ '':'' @ v) \<noteq> ''ID:'' \<longleftrightarrow> k \<noteq> ''ID''"
    if "(k, v) \<in> set line" for k v
  proof -
    from that assms have k: "k \<noteq> []" "CHR '':'' \<notin> set k"
      by (auto simp: wf_rg_def wf_tag_def list_all_iff)
    show ?thesis
    proof (cases k)
      case Nil
      with k show ?thesis by simp
    next
      case (Cons a k1)
      show ?thesis
      proof (cases k1)
        case Nil
        with Cons k show ?thesis by auto
      next
        case (Cons b k2)
        with \<open>k = a # k1\<close> k show ?thesis by (cases k2) auto
      qed
    qed
  qed
  then have "filter (\<lambda>(k, v). take 3 (k @ '':'' @ v) \<noteq> ''ID:'') line
      = filter (\<lambda>kv. fst kv \<noteq> ''ID'') line"
    by (intro filter_cong) auto
  then have "rg_entry line =
       Inr (join_fields (nm # map tag_str (filter (\<lambda>kv. fst kv \<noteq> ''ID'') line)))"
    by (simp add: rg_entry_def nm join_fields_concat tag_str_def map_map comp_def
        case_prod_unfold)
  with nm ok show ?thesis by blast
qed

lemma addNewRG_wf:
  assumes "wf_rg line"
  shows "\<exists>entry. rg_entry line = Inr entry \<and>
     (\<forall>sh bcname lb sm ds.
        addNewRG sh entry bcname lb sm ds =
          Inr (sh\<lparr>rg := rg sh @ [new_rg line bcname lb sm ds]\<rparr>))"
proof -
  define others where "others = filter (\<lambda>kv. fst kv \<noteq> ''ID'') line"
  from rg_entry_wf [OF assms] obtain nm where nm: "map_of line ''ID'' = Some nm"
    and ok: "nm \<noteq> []" "tab \<notin> set nm"
    and entry: "rg_entry line = Inr (join_fields (nm # map tag_str others))"
    by (auto simp: others_def)
  have wf: "list_all wf_tag others"
    using assms by (simp add: wf_rg_def others_def list_all_iff)
  have dist: "distinct (map fst others)" and noid: "''ID'' \<notin> fst ` set others"
    using assms by (auto simp: wf_rg_def others_def distinct_map_filter)
  have "addNewRG sh (join_fields (nm # map tag_str others)) bcname lb sm ds =
      Inr (sh\<lparr>rg := rg sh @ [new_rg line bcname lb sm ds]\<rparr>)" for sh bcname lb sm ds
  proof -
    let ?sh1 = "sam_hdr_add sh [(''ID'', nm @ ''#'' @ bcname)]"
    have i: "length (rg sh) < length (rg ?sh1)"
      and line: "rg ?sh1 ! length (rg sh) = [(''ID'', nm @ ''#'' @ bcname)]"
      by (simp_all add: sam_hdr_add_def)
    have d: "distinct (map fst (rg ?sh1 ! length (rg sh)) @ map fst others)"
      using dist noid unfolding line by simp
    have "addNewRG_loop ?sh1 (Some (length (rg sh))) (join_fields (map tag_str others))
        bcname lb sm ds =
        Inr (?sh1\<lparr>rg := (rg ?sh1)[length (rg sh) :=
          rg ?sh1 ! length (rg sh) @ map (substituted bcname lb sm ds) others]\<rparr>)"
      using i wf d by (rule addNewRG_loop_tags)
    also have "?sh1\<lparr>rg := (rg ?sh1)[length (rg sh) :=
          rg ?sh1 ! length (rg sh) @ map (substituted bcname lb sm ds) others]\<rparr>
        = sh\<lparr>rg := rg sh @ [new_rg line bcname lb sm ds]\<rparr>"
      by (simp add: sam_hdr_add_def new_rg_def nm others_def)
    finally show ?thesis
      by (simp add: addNewRG_def strtok_join_fields [OF ok] sam_hdr_find_added Let_def
          del: join_fields.simps)
  qed
  with entry show ?thesis by blast
qed

lemma add_barcodes_value:
  assumes "\<And>sh bcname lb sm ds. addNewRG sh entry bcname lb sm ds =
          Inr (sh\<lparr>rg := rg sh @ [new_rg line bcname lb sm ds]\<rparr>)"
  shows "add_barcodes sh entry bcds =
     Inr (sh\<lparr>rg := rg sh @
       map (\<lambda>e. new_rg line (name e) (Some (lib e)) (Some (sample e)) (Some (desc e))) bcds\<rparr>)"
  by (induction bcds arbitrary: sh) (simp_all add: assms)

lemma add_read_groups_value:
  assumes "list_all wf_rg lines"
  shows "\<exists>rgArray. rg_entries lines = Inr rgArray \<and>
     (\<forall>sh. add_read_groups sh rgArray (tl (entries bc)) =
        Inr (sh\<lparr>rg := rg sh @ concat (map (expanded bc) lines)\<rparr>))"
  using assms
proof (induction lines)
  case Nil
  show ?case by simp
next
  case (Cons line lines)
  then have "wf_rg line" and "list_all wf_rg lines" by simp_all
  from addNewRG_wf [OF this(1)] obtain entry where e: "rg_entry line = Inr entry"
    and a: "\<And>sh bcname lb sm ds. addNewRG sh entry bcname lb sm ds =
          Inr (sh\<lparr>rg := rg sh @ [new_rg line bcname lb sm ds]\<rparr>)"
    by blast
  from Cons.IH [OF \<open>list_all wf_rg lines\<close>] obtain rgArray where
    r: "rg_entries lines = Inr rgArray"
    and g: "\<And>sh. add_read_groups sh rgArray (tl (entries bc)) =
        Inr (sh\<lparr>rg := rg sh @ concat (map (expanded bc) lines)\<rparr>)"
    by blast
  have "add_read_groups sh (entry # rgArray) (tl (entries bc)) =
        Inr (sh\<lparr>rg := rg sh @ concat (map (expanded bc) (line # lines))\<rparr>)" for sh
    by (simp add: a add_barcodes_value [of entry line, OF a] g expanded_def)
  then show ?case
    using e r by simp
qed

lemma changeHeader_value:
  assumes "list_all wf_rg (rg h)"
  shows "changeHeader bc h argv_list version =
     Inr (h\<lparr>rg := concat (map (expanded bc) (rg h)),
            pg := pg h @ [[(''ID'', ''bambi''), (''PN'', ''bambi''), (''VN'', version),
                           (''CL'', argv_list)]]\<rparr>)"
proof -
  from add_read_groups_value [OF assms, of bc] obtain rgArray where
    r: "rg_entries (rg h) = Inr rgArray"
    and g: "\<And>sh. add_read_groups sh rgArray (tl (entries bc)) =
        Inr (sh\<lparr>rg := rg sh @ concat (map (expanded bc) (rg h))\<rparr>)"
    by blast
  show ?thesis
    by (simp add: changeHeader_def sam_hdr_add_PG_def sam_hdr_del_RG_def r g drop_Suc)
qed

text \<open>
  Claim C5. Let every read-group line of the header be well formed and let the table
  have \<open>N\<close> entries after the first one. \<^verbatim>\<open>changeHeader\<close> returns the header whose
  read-group lines are, for each original line in turn, exactly \<open>1 + N\<close> new lines and
  nothing else: one with the ID \<open><original ID>#0\<close> and the original values of \<open>LB\<close>,
  \<open>SM\<close> and \<open>DS\<close>, and one per entry with the ID \<open><original ID>#<entry name>\<close> and
  the values of \<open>LB\<close>, \<open>SM\<close> and \<open>DS\<close>, where the original has them, replaced by the
  library, sample and description of the entry. In each new line a \<open>PU\<close> of the
  original carries the suffix \<open>#\<close> and the barcode name, and every other tag has its
  original value.
\<close>

theorem changeHeader_read_groups:
  assumes "list_all wf_rg (rg h)"
  shows "changeHeader bc h argv_list version =
       Inr (h\<lparr>rg := concat (map (expanded bc) (rg h)),
              pg := pg h @ [[(''ID'', ''bambi''), (''PN'', ''bambi''), (''VN'', version),
                             (''CL'', argv_list)]]\<rparr>) \<and>
     list_all (\<lambda>line. length (expanded bc line) = 1 + length (tl (entries bc))) (rg h)"
  using changeHeader_value [OF assms] by (simp add: expanded_def list_all_iff)

theorem changeHeader_read_groups_witness:
  "changeHeader example_table example_header ''bambi decode'' ''0.9'' =
     Inr \<lparr>rg = [[(''ID'', ''1#0''), (''PL'', ''Illumina''), (''PU'', ''run7#0''),
                  (''LB'', ''pool''), (''SM'', ''mix'')],
                 [(''ID'', ''1#1''), (''PL'', ''Illumina''), (''PU'', ''run7#1''),
                  (''LB'', ''lib''), (''SM'', ''sample'')],
                 [(''ID'', ''1#2''), (''PL'', ''Illumina''), (''PU'', ''run7#2''),
                  (''LB'', ''lib''), (''SM'', ''sample'')]],
           pg = [[(''ID'', ''bambi''), (''PN'', ''bambi''), (''VN'', ''0.9''),
                  (''CL'', ''bambi decode'')]]\<rparr>"
proof -
  have wf: "list_all wf_rg (rg example_header)"
    by (simp add: example_header_def wf_rg_def wf_tag_def tab_def)
  show ?thesis
    using changeHeader_read_groups [OF wf, of example_table "''bambi decode''" "''0.9''"]
    by (simp add: example_header_def example_table_def mk_entry_def expanded_def new_rg_def
        substituted_def)
qed

end
